theory Spec2Isabelle
  imports Main
begin

section \<open>Exceptions\<close>

text \<open>
  Every Python exception the modelled code can meet is a value of \<open>exn\<close>; all of them are
  subclasses of \<open>Exception\<close>, so an \<open>except Exception\<close> clause catches each constructor.
  \<open>RequestException\<close> stands for \<open>requests.exceptions.RequestException\<close> and its subclasses
  (among them the \<open>HTTPError\<close> of \<open>raise_for_status\<close>), \<open>OperationalError\<close> for the errors of
  \<open>sqlite3\<close>, \<open>OtherException\<close> for everything else. The string is the message, \<open>str(e)\<close>.
  Strings are byte lists; a character outside ASCII is its UTF-8 bytes.
\<close>

datatype exn =
    ValueError string
  | ConnectionError string
  | RequestException string
  | OperationalError string
  | OtherException string

fun str_of :: "exn \<Rightarrow> string" where
  "str_of (ValueError m) = m"
| "str_of (ConnectionError m) = m"
| "str_of (RequestException m) = m"
| "str_of (OperationalError m) = m"
| "str_of (OtherException m) = m"

fun is_request_exception :: "exn \<Rightarrow> bool" where
  "is_request_exception (RequestException m) = True"
| "is_request_exception e = False"

section \<open>The record model (servers/base.py, DNSRecord)\<close>

record DNSRecord =
  domain :: string
  rvalue :: string
  rtype :: string
  ttl :: "int option"

definition to_a_format :: "DNSRecord \<Rightarrow> string" where
  "to_a_format r = rvalue r @ '' '' @ domain r"

definition to_cname_format :: "DNSRecord \<Rightarrow> string" where
  "to_cname_format r = domain r @ '' -> '' @ rvalue r"

text \<open>
  \<open>find_sep sep s\<close> cuts \<open>s\<close> at the first occurrence of the non-empty separator, as
  \<open>s.split(sep, 1)\<close> does; \<open>None\<close> when the separator does not occur.
\<close>

fun find_sep :: "string \<Rightarrow> string \<Rightarrow> (string \<times> string) option" where
  "find_sep sep [] = None"
| "find_sep sep (c # cs) =
     (if take (length sep) (c # cs) = sep then Some ([], drop (length sep) (c # cs))
      else (case find_sep sep cs of None \<Rightarrow> None | Some (a, b) \<Rightarrow> Some (c # a, b)))"

definition split1 :: "string \<Rightarrow> string \<Rightarrow> string list" where
  "split1 sep s = (case find_sep sep s of None \<Rightarrow> [s] | Some (a, b) \<Rightarrow> [a, b])"

text \<open>The tuple assignment \<open>x, y = parts\<close> raises \<open>ValueError\<close> unless there are two parts.\<close>

definition unpack2 :: "string list \<Rightarrow> exn + string \<times> string" where
  "unpack2 parts =
     (case parts of
        [a, b] \<Rightarrow> Inr (a, b)
      | _ \<Rightarrow> Inl (ValueError ''not enough values to unpack (expected 2, got 1)''))"

definition from_a_string :: "string \<Rightarrow> exn + DNSRecord" where
  "from_a_string record_str =
     (case unpack2 (split1 '' '' record_str) of
        Inl e \<Rightarrow> Inl e
      | Inr (ip, dm) \<Rightarrow> Inr \<lparr>domain = dm, rvalue = ip, rtype = ''A'', ttl = None\<rparr>)"

definition from_cname_string :: "string \<Rightarrow> exn + DNSRecord" where
  "from_cname_string record_str =
     (case unpack2 (split1 '' -> '' record_str) of
        Inl e \<Rightarrow> Inl e
      | Inr (dm, target) \<Rightarrow> Inr \<lparr>domain = dm, rvalue = target, rtype = ''CNAME'', ttl = None\<rparr>)"

text \<open>
  The expression \<open>from_a_string(s) if record_type == 'A' else from_cname_string(s)\<close> that
  every apply loop evaluates before its \<open>try\<close>.
\<close>

definition parse_record :: "string \<Rightarrow> string \<Rightarrow> exn + DNSRecord" where
  "parse_record record_type record_str =
     (if record_type = ''A'' then from_a_string record_str else from_cname_string record_str)"

definition format_record :: "DNSRecord \<Rightarrow> string" where
  "format_record r = (if rtype r = ''A'' then to_a_format r else to_cname_format r)"

section \<open>Bounded retry (servers/base.py, \_request\_with\_retry)\<close>

text \<open>
  The transport is the environment: \<open>request\<close> stands for \<open>self.session.request\<close> and
  either returns a response or raises, changing the state of the network. The loop
  \<open>for attempt in range(self.retries)\<close> runs over the finite list \<open>[0..retries - 1]\<close>,
  which is empty when \<open>retries \<le> 0\<close>; falling off its end returns Python's \<open>None\<close>.
  The waits passed to \<open>time.sleep\<close> are collected in a list.
\<close>

record response =
  status_code :: int
  body :: string

definition raise_for_status :: "response \<Rightarrow> exn + unit" where
  "raise_for_status resp =
     (if 400 \<le> status_code resp \<and> status_code resp < 600
      then Inl (RequestException ''HTTPError'') else Inr ())"

definition send_request :: "('t \<Rightarrow> (exn + response) \<times> 't) \<Rightarrow> 't \<Rightarrow> (exn + response) \<times> 't" where
  "send_request request t =
     (case request t of
        (Inl e, t') \<Rightarrow> (Inl e, t')
      | (Inr resp, t') \<Rightarrow>
          (case raise_for_status resp of Inl e \<Rightarrow> (Inl e, t') | Inr u \<Rightarrow> (Inr resp, t')))"

fun retry_loop ::
  "int \<Rightarrow> ('t \<Rightarrow> (exn + response) \<times> 't) \<Rightarrow> int list \<Rightarrow> 't \<Rightarrow> int list
     \<Rightarrow> (exn + response option) \<times> 't \<times> int list" where
  "retry_loop retries request [] t slept = (Inr None, t, slept)"
| "retry_loop retries request (attempt # rest) t slept =
     (case send_request request t of
        (Inr resp, t') \<Rightarrow> (Inr (Some resp), t', slept)
      | (Inl e, t') \<Rightarrow>
          if is_request_exception e then
            (if attempt = retries - 1 then (Inl e, t', slept)
             else retry_loop retries request rest t' (slept @ [(attempt + 1) * 2]))
          else (Inl e, t', slept))"

definition request_with_retry ::
  "int \<Rightarrow> ('t \<Rightarrow> (exn + response) \<times> 't) \<Rightarrow> 't \<Rightarrow> (exn + response option) \<times> 't \<times> int list" where
  "request_with_retry retries request t = retry_loop retries request [0..retries - 1] t []"

text \<open>
  A scripted transport answers the \<open>k\<close>-th request with \<open>f k\<close> and counts the requests
  made; \<open>outcome f k\<close> is what the \<open>k\<close>-th attempt ends with once \<open>raise_for_status\<close> has
  looked at the response, \<open>transient\<close> says that this is a \<open>RequestException\<close>, and
  \<open>raised\<close> is the value the loop hands back when it stops at that attempt.
\<close>

definition scripted :: "(nat \<Rightarrow> exn + response) \<Rightarrow> nat \<Rightarrow> (exn + response) \<times> nat" where
  "scripted f n = (f n, Suc n)"

definition outcome :: "(nat \<Rightarrow> exn + response) \<Rightarrow> nat \<Rightarrow> exn + response" where
  "outcome f k = fst (send_request (scripted f) k)"

definition backoff :: "nat \<Rightarrow> int list" where
  "backoff k = map (\<lambda>i. 2 * (int i + 1)) [0..<k]"

definition raised :: "exn + response \<Rightarrow> exn + response option" where
  "raised r = (case r of Inl e \<Rightarrow> Inl e | Inr resp \<Rightarrow> Inr (Some resp))"

definition transient :: "exn + response \<Rightarrow> bool" where
  "transient r = (case r of Inl e \<Rightarrow> is_request_exception e | Inr resp \<Rightarrow> False)"

section \<open>Record sets, record maps and statistics\<close>

text \<open>
  A Python set of canonical strings is a list without repetitions; its order is the order
  in which a \<open>for\<close> loop visits the set, which Python leaves open, so nothing below
  depends on it. A dict from record type to such a set is an association list with
  distinct keys. \<open>get_set\<close> is \<open>records.get(record_type, set())\<close> and \<open>set_minus\<close> is the
  set difference \<open>a - b\<close>.
\<close>

type_synonym record_map = "(string \<times> string list) list"

definition get_set :: "record_map \<Rightarrow> string \<Rightarrow> string list" where
  "get_set records record_type = (case map_of records record_type of None \<Rightarrow> [] | Some s \<Rightarrow> s)"

definition set_minus :: "string list \<Rightarrow> string list \<Rightarrow> string list" where
  "set_minus a b = filter (\<lambda>x. x \<notin> set b) a"

record counts =
  added :: nat
  removed :: nat
  conflicts :: nat

record stats = counts +
  a_records :: nat
  cname_records :: nat

section \<open>The server adapter (servers/base.py, DNSServer)\<close>

text \<open>
  The abstract methods of \<open>DNSServer\<close> are the fields of a record of functions on the
  state \<open>'r\<close> of everything outside the process (the remote servers and the sessions
  held with them). Each method returns a value or raises, and may change that state in
  either case. \<open>disconnect\<close> only resets fields of the adapter in every implementation
  of the repository, so it is a function on the state that does not raise.
\<close>

record 'r DNSServer =
  connect :: "'r \<Rightarrow> (exn + bool) \<times> 'r"
  get_records :: "'r \<Rightarrow> (exn + record_map) \<times> 'r"
  add_record :: "DNSRecord \<Rightarrow> 'r \<Rightarrow> (exn + bool) \<times> 'r"
  delete_record :: "DNSRecord \<Rightarrow> 'r \<Rightarrow> (exn + bool) \<times> 'r"
  disconnect :: "'r \<Rightarrow> 'r"

section \<open>The reconciliation engine (sync.py, \_apply\_diff)\<close>

fun apply_adds ::
  "'r DNSServer \<Rightarrow> string \<Rightarrow> string list \<Rightarrow> stats \<Rightarrow> 'r \<Rightarrow> (exn + stats) \<times> 'r" where
  "apply_adds target_server record_type [] stats r = (Inr stats, r)"
| "apply_adds target_server record_type (record_str # rest) stats r =
     (case parse_record record_type record_str of
        Inl e \<Rightarrow> (Inl e, r)
      | Inr record \<Rightarrow>
          (case add_record target_server record r of
             (Inr result, r') \<Rightarrow>
               if result
               then apply_adds target_server record_type rest (stats\<lparr>added := added stats + 1\<rparr>) r'
               else apply_adds target_server record_type rest
                      (stats\<lparr>conflicts := conflicts stats + 1\<rparr>) r'
           | (Inl e, r') \<Rightarrow>
               apply_adds target_server record_type rest
                 (stats\<lparr>conflicts := conflicts stats + 1\<rparr>) r'))"

fun apply_removes ::
  "'r DNSServer \<Rightarrow> string \<Rightarrow> string list \<Rightarrow> stats \<Rightarrow> 'r \<Rightarrow> (exn + stats) \<times> 'r" where
  "apply_removes target_server record_type [] stats r = (Inr stats, r)"
| "apply_removes target_server record_type (record_str # rest) stats r =
     (case parse_record record_type record_str of
        Inl e \<Rightarrow> (Inl e, r)
      | Inr record \<Rightarrow>
          (case delete_record target_server record r of
             (Inr result, r') \<Rightarrow>
               if result
               then apply_removes target_server record_type rest
                      (stats\<lparr>removed := removed stats + 1\<rparr>) r'
               else apply_removes target_server record_type rest stats r'
           | (Inl e, r') \<Rightarrow>
               apply_removes target_server record_type rest
                 (stats\<lparr>conflicts := conflicts stats + 1\<rparr>) r'))"

definition apply_type ::
  "record_map \<Rightarrow> record_map \<Rightarrow> 'r DNSServer \<Rightarrow> string \<Rightarrow> stats \<Rightarrow> 'r
     \<Rightarrow> (exn + stats) \<times> 'r" where
  "apply_type source_records target_records target_server record_type stats r =
     (let source_set = get_set source_records record_type;
          target_set = get_set target_records record_type;
          to_add = set_minus source_set target_set;
          to_remove = set_minus target_set source_set
      in case apply_adds target_server record_type to_add stats r of
           (Inl e, r') \<Rightarrow> (Inl e, r')
         | (Inr stats', r') \<Rightarrow> apply_removes target_server record_type to_remove stats' r')"

definition apply_diff :: "record_map \<Rightarrow> 'r DNSServer \<Rightarrow> 'r \<Rightarrow> (exn + stats) \<times> 'r" where
  "apply_diff source_records target_server r =
     (let stats = \<lparr>added = 0, removed = 0, conflicts = 0, a_records = 0, cname_records = 0\<rparr>
      in case get_records target_server r of
           (Inl e, r0) \<Rightarrow> (Inl e, r0)
         | (Inr target_records, r0) \<Rightarrow>
             (case apply_type source_records target_records target_server ''A'' stats r0 of
                (Inl e, r1) \<Rightarrow> (Inl e, r1)
              | (Inr stats1, r1) \<Rightarrow>
                  (case apply_type source_records target_records target_server ''CNAME''
                          stats1 r1 of
                     (Inl e, r2) \<Rightarrow> (Inl e, r2)
                   | (Inr stats2, r2) \<Rightarrow>
                       (Inr (stats2\<lparr>a_records := length (get_set source_records ''A''),
                                   cname_records := length (get_set source_records ''CNAME'')\<rparr>),
                        r2))))"

section \<open>The older engine (servers/base.py, sync\_records)\<close>

fun sync_adds ::
  "'r DNSServer \<Rightarrow> string \<Rightarrow> string list \<Rightarrow> counts \<Rightarrow> 'r \<Rightarrow> (exn + counts) \<times> 'r" where
  "sync_adds target_server record_type [] stats r = (Inr stats, r)"
| "sync_adds target_server record_type (record_str # rest) stats r =
     (case parse_record record_type record_str of
        Inl e \<Rightarrow> (Inl e, r)
      | Inr record \<Rightarrow>
          (case add_record target_server record r of
             (Inr result, r') \<Rightarrow>
               if result
               then sync_adds target_server record_type rest (stats\<lparr>added := added stats + 1\<rparr>) r'
               else sync_adds target_server record_type rest stats r'
           | (Inl e, r') \<Rightarrow>
               sync_adds target_server record_type rest
                 (stats\<lparr>conflicts := conflicts stats + 1\<rparr>) r'))"

fun sync_removes ::
  "'r DNSServer \<Rightarrow> string \<Rightarrow> string list \<Rightarrow> counts \<Rightarrow> 'r \<Rightarrow> (exn + counts) \<times> 'r" where
  "sync_removes target_server record_type [] stats r = (Inr stats, r)"
| "sync_removes target_server record_type (record_str # rest) stats r =
     (case parse_record record_type record_str of
        Inl e \<Rightarrow> (Inl e, r)
      | Inr record \<Rightarrow>
          (case delete_record target_server record r of
             (Inr result, r') \<Rightarrow>
               if result
               then sync_removes target_server record_type rest
                      (stats\<lparr>removed := removed stats + 1\<rparr>) r'
               else sync_removes target_server record_type rest stats r'
           | (Inl e, r') \<Rightarrow>
               sync_removes target_server record_type rest
                 (stats\<lparr>conflicts := conflicts stats + 1\<rparr>) r'))"

definition sync_type ::
  "record_map \<Rightarrow> record_map \<Rightarrow> 'r DNSServer \<Rightarrow> bool \<Rightarrow> string \<Rightarrow> counts \<Rightarrow> 'r
     \<Rightarrow> (exn + counts) \<times> 'r" where
  "sync_type source_records target_records target_server dry_run record_type stats r =
     (let source_set = get_set source_records record_type;
          target_set = get_set target_records record_type;
          to_add = set_minus source_set target_set;
          to_remove = set_minus target_set source_set
      in if dry_run
         then (Inr (stats\<lparr>added := added stats + length to_add,
                          removed := removed stats + length to_remove\<rparr>), r)
         else (case sync_adds target_server record_type to_add stats r of
                 (Inl e, r') \<Rightarrow> (Inl e, r')
               | (Inr stats', r') \<Rightarrow> sync_removes target_server record_type to_remove stats' r'))"

definition sync_records ::
  "'r DNSServer \<Rightarrow> 'r DNSServer \<Rightarrow> bool \<Rightarrow> 'r \<Rightarrow> (exn + counts) \<times> 'r" where
  "sync_records self target_server dry_run r =
     (let stats = \<lparr>added = 0, removed = 0, conflicts = 0\<rparr>
      in case get_records self r of
           (Inl e, r1) \<Rightarrow> (Inl e, r1)
         | (Inr source_records, r1) \<Rightarrow>
             (case get_records target_server r1 of
                (Inl e, r2) \<Rightarrow> (Inl e, r2)
              | (Inr target_records, r2) \<Rightarrow>
                  (case sync_type source_records target_records target_server dry_run ''A''
                          stats r2 of
                     (Inl e, r3) \<Rightarrow> (Inl e, r3)
                   | (Inr stats1, r3) \<Rightarrow>
                       sync_type source_records target_records target_server dry_run ''CNAME''
                         stats1 r3)))"

section \<open>Observing the calls made on a server\<close>

text \<open>
  What a run asks of its target is read off a log: \<open>traced srv\<close> behaves as \<open>srv\<close> and
  appends every \<open>add_record\<close> and \<open>delete_record\<close> call, with the record passed and the
  outcome of the call, to a list kept beside the state; \<open>untraced srv\<close> behaves as \<open>srv\<close>
  and leaves that list alone.
\<close>

datatype call = AddRecord DNSRecord "exn + bool" | DeleteRecord DNSRecord "exn + bool"

fun is_add :: "call \<Rightarrow> bool" where
  "is_add (AddRecord record res) = True"
| "is_add (DeleteRecord record res) = False"

fun call_record :: "call \<Rightarrow> DNSRecord" where
  "call_record (AddRecord record res) = record"
| "call_record (DeleteRecord record res) = record"

fun call_result :: "call \<Rightarrow> exn + bool" where
  "call_result (AddRecord record res) = res"
| "call_result (DeleteRecord record res) = res"

definition returned_true :: "call \<Rightarrow> bool" where
  "returned_true c = (call_result c = Inr True)"

definition returned_false :: "call \<Rightarrow> bool" where
  "returned_false c = (call_result c = Inr False)"

definition call_raised :: "call \<Rightarrow> bool" where
  "call_raised c = isl (call_result c)"

definition tally :: "('a \<Rightarrow> bool) \<Rightarrow> 'a list \<Rightarrow> nat" where
  "tally P xs = length (filter P xs)"

text \<open>A call is identified by its method, the type of its record and the canonical string.\<close>

definition call_key :: "call \<Rightarrow> bool \<times> string \<times> string" where
  "call_key c = (is_add c, rtype (call_record c), format_record (call_record c))"

definition traced :: "'r DNSServer \<Rightarrow> ('r \<times> call list) DNSServer" where
  "traced srv =
     \<lparr>connect = (\<lambda>(r, log). case connect srv r of (x, r') \<Rightarrow> (x, (r', log))),
      get_records = (\<lambda>(r, log). case get_records srv r of (x, r') \<Rightarrow> (x, (r', log))),
      add_record = (\<lambda>record (r, log). case add_record srv record r of
                      (x, r') \<Rightarrow> (x, (r', log @ [AddRecord record x]))),
      delete_record = (\<lambda>record (r, log). case delete_record srv record r of
                      (x, r') \<Rightarrow> (x, (r', log @ [DeleteRecord record x]))),
      disconnect = (\<lambda>(r, log). (disconnect srv r, log))\<rparr>"

definition untraced :: "'r DNSServer \<Rightarrow> ('r \<times> call list) DNSServer" where
  "untraced srv =
     \<lparr>connect = (\<lambda>(r, log). case connect srv r of (x, r') \<Rightarrow> (x, (r', log))),
      get_records = (\<lambda>(r, log). case get_records srv r of (x, r') \<Rightarrow> (x, (r', log))),
      add_record = (\<lambda>record (r, log). case add_record srv record r of
                      (x, r') \<Rightarrow> (x, (r', log))),
      delete_record = (\<lambda>record (r, log). case delete_record srv record r of
                      (x, r') \<Rightarrow> (x, (r', log))),
      disconnect = (\<lambda>(r, log). (disconnect srv r, log))\<rparr>"

text \<open>
  A string is canonical for a record type when it contains the separator of that type,
  which is when the parse of the apply loops succeeds.
\<close>

definition canonical :: "string \<Rightarrow> string \<Rightarrow> bool" where
  "canonical record_type s =
     (find_sep (if record_type = ''A'' then '' '' else '' -> '') s \<noteq> None)"

text \<open>
  The three ways a call can be counted. \<open>diff_conflict\<close> is what \<open>_apply_diff\<close> adds to
  \<open>conflicts\<close>: a call that raised, or an \<open>add_record\<close> that returned false.
\<close>

definition add_ok :: "call \<Rightarrow> bool" where
  "add_ok c = (is_add c \<and> returned_true c)"

definition delete_ok :: "call \<Rightarrow> bool" where
  "delete_ok c = (\<not> is_add c \<and> returned_true c)"

definition diff_conflict :: "call \<Rightarrow> bool" where
  "diff_conflict c = (call_raised c \<or> (is_add c \<and> returned_false c))"

text \<open>
  The calls a reconciliation of one record type is to make: an \<open>add_record\<close> for every
  string of \<open>source - target\<close>, then a \<open>delete_record\<close> for every string of
  \<open>target - source\<close>.
\<close>

definition planned :: "record_map \<Rightarrow> record_map \<Rightarrow> string \<Rightarrow> (bool \<times> string \<times> string) list" where
  "planned source_records target_records t =
     map (\<lambda>x. (True, t, x)) (set_minus (get_set source_records t) (get_set target_records t)) @
     map (\<lambda>x. (False, t, x)) (set_minus (get_set target_records t) (get_set source_records t))"

definition parseable :: "record_map \<Rightarrow> record_map \<Rightarrow> string \<Rightarrow> bool" where
  "parseable source_records target_records t =
     (list_all (canonical t) (set_minus (get_set source_records t) (get_set target_records t)) \<and>
      list_all (canonical t) (set_minus (get_set target_records t) (get_set source_records t)))"

section \<open>Replaying a call log; example servers and record sets\<close>

text \<open>
  The record set of type \<open>t\<close> that a target holds after the logged calls, when every call
  that returned true took effect on it and no other call did.
\<close>

definition effect :: "string \<Rightarrow> call \<Rightarrow> string set \<Rightarrow> string set" where
  "effect t c X =
     (if rtype (call_record c) = t \<and> returned_true c
      then (if is_add c then insert (format_record (call_record c)) X
            else X - {format_record (call_record c)})
      else X)"

definition replay :: "string \<Rightarrow> call list \<Rightarrow> string set \<Rightarrow> string set" where
  "replay t log X = fold (effect t) log X"

text \<open>
  A server in the manner of the tests' \<open>FakeServer\<close>: it reports a fixed record map, and
  answers \<open>add_record\<close> and \<open>delete_record\<close> as two tables from canonical strings say.
\<close>

definition fake_server ::
  "record_map \<Rightarrow> (string \<Rightarrow> exn + bool) \<Rightarrow> (string \<Rightarrow> exn + bool) \<Rightarrow> 'r DNSServer" where
  "fake_server records on_add on_delete =
     \<lparr>connect = (\<lambda>r. (Inr True, r)),
      get_records = (\<lambda>r. (Inr records, r)),
      add_record = (\<lambda>rcd r. (on_add (format_record rcd), r)),
      delete_record = (\<lambda>rcd r. (on_delete (format_record rcd), r)),
      disconnect = (\<lambda>r. r)\<rparr>"

definition accept :: "string \<Rightarrow> exn + bool" where
  "accept s = Inr True"

definition reject :: "string \<Rightarrow> exn + bool" where
  "reject s = Inr False"

definition accept_except :: "string \<Rightarrow> string \<Rightarrow> exn + bool" where
  "accept_except bad s = (if s = bad then Inr False else Inr True)"

text \<open>The record sets of the specification's example scenarios.\<close>

definition hub_example :: record_map where
  "hub_example = [(''A'', [''1.2.3.4 nas.home'', ''5.6.7.8 pi.home'']),
                  (''CNAME'', [''alias.home -> nas.home''])]"

definition spoke_example :: record_map where
  "spoke_example = [(''A'', [''1.2.3.4 nas.home'', ''9.9.9.9 stale.home''])]"

text \<open>
  The conflicts as the specification counts them: every call that returned false or
  raised.
\<close>

definition claimed_conflict :: "call \<Rightarrow> bool" where
  "claimed_conflict c = (returned_false c \<or> call_raised c)"

section \<open>The cache and history store (db.py)\<close>

text \<open>
  The SQLite file is a record of its tables, each a list of rows in insertion order; the
  timestamps of the rows are left out. Every function of \<open>db.py\<close> opens a connection,
  runs one transaction and commits. Whether that raises is decided by the environment:
  \<open>faults\<close> lists, for the calls still to come, whether the call fails; a failing call
  raises \<open>sqlite3.OperationalError\<close> and commits nothing. With no entry left the call
  succeeds. The rows of \<open>spoke_records\<close> inserted by one call are distinct, since they
  come from a dict of sets, so its primary key is never violated.
\<close>

record SyncRun =
  run_server_name :: string
  run_server_type :: string
  run_role :: string
  run_added :: nat
  run_removed :: nat
  run_conflicts :: nat
  run_error :: "string option"
  run_status :: string
  run_a_records :: nat
  run_cname_records :: nat

record database =
  sync_runs :: "SyncRun list"
  authoritative_records :: "(string \<times> string \<times> string) list"
  cache_meta :: "string list"
  spoke_records :: "(string \<times> string \<times> string) list"
  faults :: "bool list"

definition db_connect :: "database \<Rightarrow> bool \<times> database" where
  "db_connect d = (case faults d of [] \<Rightarrow> (False, d) | f # fs \<Rightarrow> (f, d\<lparr>faults := fs\<rparr>))"

definition db_error :: exn where
  "db_error = OperationalError ''unable to open database file''"

text \<open>The rows \<open>(name, record_type, record_str)\<close> of the two nested loops over \<open>records.items()\<close>.\<close>

definition rows_of :: "string \<Rightarrow> record_map \<Rightarrow> (string \<times> string \<times> string) list" where
  "rows_of owner records =
     concat (map (\<lambda>(record_type, record_set). map (\<lambda>record_str. (owner, record_type, record_str)) record_set)
               records)"

definition select_rows :: "string \<Rightarrow> (string \<times> string \<times> string) list \<Rightarrow> (string \<times> string) list" where
  "select_rows owner table = map snd (filter (\<lambda>row. fst row = owner) table)"

definition delete_rows :: "string \<Rightarrow> (string \<times> string \<times> string) list \<Rightarrow> (string \<times> string \<times> string) list" where
  "delete_rows owner table = filter (\<lambda>row. fst row \<noteq> owner) table"

text \<open>\<open>records.setdefault(record_type, set()).add(record_str)\<close>\<close>

fun dict_add :: "record_map \<Rightarrow> string \<Rightarrow> string \<Rightarrow> record_map" where
  "dict_add [] record_type record_str = [(record_type, [record_str])]"
| "dict_add ((k, v) # kvs) record_type record_str =
     (if k = record_type then (k, if record_str \<in> set v then v else v @ [record_str]) # kvs
      else (k, v) # dict_add kvs record_type record_str)"

definition rows_to_dict :: "(string \<times> string) list \<Rightarrow> record_map option" where
  "rows_to_dict rows =
     (if rows = [] then None
      else Some (fold (\<lambda>(record_type, record_str) records. dict_add records record_type record_str)
                   rows []))"

definition save_hub_records :: "string \<Rightarrow> record_map \<Rightarrow> database \<Rightarrow> (exn + unit) \<times> database" where
  "save_hub_records hub_name records d =
     (case db_connect d of
        (True, d') \<Rightarrow> (Inl db_error, d')
      | (False, d') \<Rightarrow>
          (Inr (),
           d'\<lparr>authoritative_records :=
                 delete_rows hub_name (authoritative_records d') @ rows_of hub_name records,
               cache_meta := filter (\<lambda>h. h \<noteq> hub_name) (cache_meta d') @ [hub_name]\<rparr>))"

definition get_cached_hub_records :: "string \<Rightarrow> database \<Rightarrow> (exn + record_map option) \<times> database" where
  "get_cached_hub_records hub_name d =
     (case db_connect d of
        (True, d') \<Rightarrow> (Inl db_error, d')
      | (False, d') \<Rightarrow> (Inr (rows_to_dict (select_rows hub_name (authoritative_records d'))), d'))"

definition save_spoke_records :: "string \<Rightarrow> record_map \<Rightarrow> database \<Rightarrow> (exn + unit) \<times> database" where
  "save_spoke_records spoke_name records d =
     (case db_connect d of
        (True, d') \<Rightarrow> (Inl db_error, d')
      | (False, d') \<Rightarrow>
          (Inr (),
           d'\<lparr>spoke_records := delete_rows spoke_name (spoke_records d') @ rows_of spoke_name records\<rparr>))"

definition get_spoke_records :: "string \<Rightarrow> database \<Rightarrow> (exn + record_map option) \<times> database" where
  "get_spoke_records spoke_name d =
     (case db_connect d of
        (True, d') \<Rightarrow> (Inl db_error, d')
      | (False, d') \<Rightarrow> (Inr (rows_to_dict (select_rows spoke_name (spoke_records d'))), d'))"

text \<open>
  \<open>status = "error" if error else "success"\<close>: the error string counts when it is there
  and not empty.
\<close>

definition truthy :: "string option \<Rightarrow> bool" where
  "truthy error = (case error of None \<Rightarrow> False | Some s \<Rightarrow> s \<noteq> [])"

definition sync_row :: "string \<Rightarrow> string \<Rightarrow> string \<Rightarrow> stats \<Rightarrow> string option \<Rightarrow> SyncRun" where
  "sync_row server_name server_type role stats error =
     \<lparr>run_server_name = server_name, run_server_type = server_type, run_role = role,
      run_added = added stats, run_removed = removed stats, run_conflicts = conflicts stats,
      run_error = error, run_status = (if truthy error then ''error'' else ''success''),
      run_a_records = a_records stats, run_cname_records = cname_records stats\<rparr>"

definition record_sync ::
  "string \<Rightarrow> string \<Rightarrow> string \<Rightarrow> stats \<Rightarrow> string option \<Rightarrow> database \<Rightarrow> (exn + unit) \<times> database" where
  "record_sync server_name server_type role stats error d =
     (case db_connect d of
        (True, d') \<Rightarrow> (Inl db_error, d')
      | (False, d') \<Rightarrow>
          (Inr (), d'\<lparr>sync_runs := sync_runs d' @ [sync_row server_name server_type role stats error]\<rparr>))"

section \<open>Notifications (notifications.py)\<close>

text \<open>
  A notification is kept as the arguments of the call that asks for it. \<open>_dispatch\<close> reads
  its settings from the process environment: it posts to Discord when a webhook is set,
  and calls \<open>_send_email\<close> when an SMTP host and a recipient are set. \<open>_send_discord\<close> has
  its request inside a \<open>try\<close> that catches everything, and nothing of it is kept here.
  \<open>_send_email\<close> has its SMTP session inside such a \<open>try\<close> too, but before that it
  converts \<open>DNS_SYNC_SMTP_PORT\<close> with \<open>int\<close> and fills in the headers of the message
  (lines 72 to 83): an exception raised there leaves \<open>_send_email\<close>, \<open>_dispatch\<close> and
  the caller. Whether one is raised depends on the text of the environment variables, on
  the message and on the library; \<open>email_faults\<close> says, for every call of \<open>_send_email\<close>
  still to come, what those statements raise, if anything, and an empty list means that
  they raise nothing.
\<close>

datatype notification =
    SyncFailed string string string
  | HubUnreachable string string string

record environ =
  smtp_host :: string
  smtp_to :: string
  email_faults :: "exn option list"

text \<open>
  The world of the orchestrator is the store, the notifications handed to
  \<open>notifications.py\<close>, the environment and the state of everything remote.
\<close>

record 'r world =
  db :: database
  notified :: "notification list"
  environ :: environ
  remote :: 'r

definition send_email :: "'r world \<Rightarrow> (exn + unit) \<times> 'r world" where
  "send_email w =
     (case email_faults (environ w) of
        [] \<Rightarrow> (Inr (), w)
      | fault # rest \<Rightarrow>
          (case fault of None \<Rightarrow> Inr () | Some e \<Rightarrow> Inl e,
           w\<lparr>environ := (environ w)\<lparr>email_faults := rest\<rparr>\<rparr>))"

definition dispatch :: "notification \<Rightarrow> 'r world \<Rightarrow> (exn + unit) \<times> 'r world" where
  "dispatch n w =
     (let w1 = w\<lparr>notified := notified w @ [n]\<rparr>
      in if smtp_host (environ w1) \<noteq> [] \<and> smtp_to (environ w1) \<noteq> [] then send_email w1
         else (Inr (), w1))"

definition notify_sync_failed ::
  "string \<Rightarrow> string \<Rightarrow> string \<Rightarrow> 'r world \<Rightarrow> (exn + unit) \<times> 'r world" where
  "notify_sync_failed server_name server_type error w =
     dispatch (SyncFailed server_name server_type error) w"

definition notify_hub_unreachable ::
  "string \<Rightarrow> string \<Rightarrow> string \<Rightarrow> 'r world \<Rightarrow> (exn + unit) \<times> 'r world" where
  "notify_hub_unreachable hub_name hub_type error w =
     dispatch (HubUnreachable hub_name hub_type error) w"

section \<open>The sync orchestrator (sync.py)\<close>

text \<open>
  The factory \<open>create_server\<close> of \<open>servers/__init__.py\<close> is a parameter: it raises
  \<open>ValueError\<close> for an unknown type and returns the adapter otherwise.
\<close>

record ServerConfig =
  cfg_name :: string
  cfg_type :: string
  cfg_enabled :: "bool option"

text \<open>\<open>spoke_cfg.get("enabled", True)\<close>\<close>

definition is_enabled :: "ServerConfig \<Rightarrow> bool" where
  "is_enabled cfg = (case cfg_enabled cfg of None \<Rightarrow> True | Some b \<Rightarrow> b)"

definition empty_stats :: stats where
  "empty_stats = \<lparr>added = 0, removed = 0, conflicts = 0, a_records = 0, cname_records = 0\<rparr>"

text \<open>The \<open>finally\<close> clauses: \<open>if server: server.disconnect()\<close>.\<close>

definition finally_disconnect :: "'r DNSServer option \<Rightarrow> 'r world \<Rightarrow> 'r world" where
  "finally_disconnect server w =
     (case server of None \<Rightarrow> w | Some s \<Rightarrow> w\<lparr>remote := disconnect s (remote w)\<rparr>)"

text \<open>
  The \<open>try\<close> block of \<open>refresh_hub_cache\<close>: its outcome, the value of \<open>hub_server\<close> when
  the block is left, and the world then.
\<close>

definition hub_try ::
  "(ServerConfig \<Rightarrow> exn + 'r DNSServer) \<Rightarrow> ServerConfig \<Rightarrow> 'r world
     \<Rightarrow> (exn + record_map) \<times> 'r DNSServer option \<times> 'r world" where
  "hub_try create_server hub_cfg w =
     (case create_server hub_cfg of
        Inl e \<Rightarrow> (Inl e, None, w)
      | Inr hub_server \<Rightarrow>
          (case connect hub_server (remote w) of
             (Inl e, r1) \<Rightarrow> (Inl e, Some hub_server, w\<lparr>remote := r1\<rparr>)
           | (Inr ok, r1) \<Rightarrow>
               (case get_records hub_server r1 of
                  (Inl e, r2) \<Rightarrow> (Inl e, Some hub_server, w\<lparr>remote := r2\<rparr>)
                | (Inr hub_records, r2) \<Rightarrow>
                    (case save_hub_records (cfg_name hub_cfg) hub_records (db w) of
                       (Inl e, d) \<Rightarrow> (Inl e, Some hub_server, w\<lparr>db := d, remote := r2\<rparr>)
                     | (Inr u, d) \<Rightarrow>
                         (Inr hub_records, Some hub_server, w\<lparr>db := d, remote := r2\<rparr>)))))"

definition refresh_hub_cache ::
  "(ServerConfig \<Rightarrow> exn + 'r DNSServer) \<Rightarrow> ServerConfig \<Rightarrow> 'r world
     \<Rightarrow> (exn + record_map option) \<times> 'r world" where
  "refresh_hub_cache create_server hub_cfg w =
     (case hub_try create_server hub_cfg w of
        (Inr hub_records, hub_server, w1) \<Rightarrow> (Inr (Some hub_records), finally_disconnect hub_server w1)
      | (Inl e, hub_server, w1) \<Rightarrow>
          (case notify_hub_unreachable (cfg_name hub_cfg) (cfg_type hub_cfg) (str_of e) w1 of
             (Inl e', w2) \<Rightarrow> (Inl e', finally_disconnect hub_server w2)
           | (Inr u, w2) \<Rightarrow>
               (case get_cached_hub_records (cfg_name hub_cfg) (db w2) of
                  (Inl e', d) \<Rightarrow> (Inl e', finally_disconnect hub_server (w2\<lparr>db := d\<rparr>))
                | (Inr cached, d) \<Rightarrow>
                    (Inr cached, finally_disconnect hub_server (w2\<lparr>db := d\<rparr>)))))"

text \<open>
  The \<open>try\<close> block that \<open>sync_all_enabled_spokes\<close> and \<open>perform_sync\<close> both run for a spoke
  (lines 63 to 71 and 104 to 112), and the whole \<open>try\<close>/\<open>except\<close>/\<open>finally\<close> statement
  around it; what the statement yields is stored under the spoke's name by the first and
  returned by the second. An exception raised inside the \<open>except\<close> clause, by the history
  write or by the notification, leaves the statement once \<open>finally\<close> has run.
\<close>

definition spoke_try ::
  "(ServerConfig \<Rightarrow> exn + 'r DNSServer) \<Rightarrow> record_map \<Rightarrow> ServerConfig \<Rightarrow> 'r world
     \<Rightarrow> (exn + stats) \<times> 'r DNSServer option \<times> 'r world" where
  "spoke_try create_server hub_records spoke_cfg w =
     (case create_server spoke_cfg of
        Inl e \<Rightarrow> (Inl e, None, w)
      | Inr spoke_server \<Rightarrow>
          (case connect spoke_server (remote w) of
             (Inl e, r1) \<Rightarrow> (Inl e, Some spoke_server, w\<lparr>remote := r1\<rparr>)
           | (Inr ok, r1) \<Rightarrow>
               (case apply_diff hub_records spoke_server r1 of
                  (Inl e, r2) \<Rightarrow> (Inl e, Some spoke_server, w\<lparr>remote := r2\<rparr>)
                | (Inr stats, r2) \<Rightarrow>
                    (case save_spoke_records (cfg_name spoke_cfg) hub_records (db w) of
                       (Inl e, d1) \<Rightarrow> (Inl e, Some spoke_server, w\<lparr>db := d1, remote := r2\<rparr>)
                     | (Inr u, d1) \<Rightarrow>
                         (case record_sync (cfg_name spoke_cfg) (cfg_type spoke_cfg) ''spoke''
                                 stats None d1 of
                            (Inl e, d2) \<Rightarrow>
                              (Inl e, Some spoke_server, w\<lparr>db := d2, remote := r2\<rparr>)
                          | (Inr u', d2) \<Rightarrow>
                              (Inr stats, Some spoke_server, w\<lparr>db := d2, remote := r2\<rparr>))))))"

definition sync_spoke ::
  "(ServerConfig \<Rightarrow> exn + 'r DNSServer) \<Rightarrow> record_map \<Rightarrow> ServerConfig \<Rightarrow> 'r world
     \<Rightarrow> (exn + stats) \<times> 'r world" where
  "sync_spoke create_server hub_records spoke_cfg w =
     (case spoke_try create_server hub_records spoke_cfg w of
        (Inr stats, spoke_server, w1) \<Rightarrow> (Inr stats, finally_disconnect spoke_server w1)
      | (Inl e, spoke_server, w1) \<Rightarrow>
          (case record_sync (cfg_name spoke_cfg) (cfg_type spoke_cfg) ''spoke'' empty_stats
                  (Some (str_of e)) (db w1) of
             (Inl e', d) \<Rightarrow> (Inl e', finally_disconnect spoke_server (w1\<lparr>db := d\<rparr>))
           | (Inr u, d) \<Rightarrow>
               (case notify_sync_failed (cfg_name spoke_cfg) (cfg_type spoke_cfg) (str_of e)
                       (w1\<lparr>db := d\<rparr>) of
                  (Inl e', w2) \<Rightarrow> (Inl e', finally_disconnect spoke_server w2)
                | (Inr u', w2) \<Rightarrow> (Inr empty_stats, finally_disconnect spoke_server w2))))"

text \<open>\<open>results[spoke_name] = stats\<close> on a dict kept as an association list.\<close>

fun dict_set :: "(string \<times> 'v) list \<Rightarrow> string \<Rightarrow> 'v \<Rightarrow> (string \<times> 'v) list" where
  "dict_set [] k v = [(k, v)]"
| "dict_set ((k', v') # kvs) k v = (if k' = k then (k, v) # kvs else (k', v') # dict_set kvs k v)"

text \<open>The message has a dash outside ASCII, here in its three UTF-8 bytes.\<close>

definition no_cache_msg :: string where
  "no_cache_msg = ''No authoritative cache available '' @ [CHR 0xE2, CHR 0x80, CHR 0x94]
                    @ '' skipping spoke sync''"

fun spokes_loop ::
  "(ServerConfig \<Rightarrow> exn + 'r DNSServer) \<Rightarrow> record_map option \<Rightarrow> ServerConfig list
     \<Rightarrow> (string \<times> stats) list \<Rightarrow> 'r world \<Rightarrow> (exn + (string \<times> stats) list) \<times> 'r world" where
  "spokes_loop create_server hub_records [] results w = (Inr results, w)"
| "spokes_loop create_server hub_records (spoke_cfg # rest) results w =
     (if \<not> is_enabled spoke_cfg then spokes_loop create_server hub_records rest results w
      else (case hub_records of
              None \<Rightarrow>
                (case record_sync (cfg_name spoke_cfg) (cfg_type spoke_cfg) ''spoke'' empty_stats
                        (Some no_cache_msg) (db w) of
                   (Inl e, d) \<Rightarrow> (Inl e, w\<lparr>db := d\<rparr>)
                 | (Inr u, d) \<Rightarrow>
                     spokes_loop create_server hub_records rest
                       (dict_set results (cfg_name spoke_cfg) empty_stats) (w\<lparr>db := d\<rparr>))
            | Some h \<Rightarrow>
                (case sync_spoke create_server h spoke_cfg w of
                   (Inl e, w') \<Rightarrow> (Inl e, w')
                 | (Inr stats, w') \<Rightarrow>
                     spokes_loop create_server hub_records rest
                       (dict_set results (cfg_name spoke_cfg) stats) w')))"

definition sync_all_enabled_spokes ::
  "(ServerConfig \<Rightarrow> exn + 'r DNSServer) \<Rightarrow> ServerConfig \<Rightarrow> ServerConfig list \<Rightarrow> 'r world
     \<Rightarrow> (exn + (string \<times> stats) list) \<times> 'r world" where
  "sync_all_enabled_spokes create_server hub_cfg spokes w =
     (case get_cached_hub_records (cfg_name hub_cfg) (db w) of
        (Inl e, d) \<Rightarrow> (Inl e, w\<lparr>db := d\<rparr>)
      | (Inr hub_records, d) \<Rightarrow> spokes_loop create_server hub_records spokes [] (w\<lparr>db := d\<rparr>))"


section \<open>The pairs of a record map\<close>

text \<open>The pairs \<open>(record_type, record_str)\<close> of a record map, in the order of its loops.\<close>

definition items_of :: "record_map \<Rightarrow> (string \<times> string) list" where
  "items_of records = concat (map (\<lambda>(t, v). map (Pair t) v) records)"

section \<open>Rows and results of the degraded branch\<close>

definition unavailable_row :: "ServerConfig \<Rightarrow> SyncRun" where
  "unavailable_row spoke_cfg =
     sync_row (cfg_name spoke_cfg) (cfg_type spoke_cfg) ''spoke'' empty_stats (Some no_cache_msg)"

definition unavailable_results :: "ServerConfig list \<Rightarrow> (string \<times> stats) list \<Rightarrow> (string \<times> stats) list" where
  "unavailable_results spokes results =
     fold (\<lambda>spoke_cfg res. dict_set res (cfg_name spoke_cfg) empty_stats) (filter is_enabled spokes) results"

definition empty_database :: database where
  "empty_database = \<lparr>sync_runs = [], authoritative_records = [], cache_meta = [],
                      spoke_records = [], faults = []\<rparr>"

section \<open>Rows, notifications and failing adapters\<close>







section \<open>Example configurations\<close>





text \<open>A server that cannot be reached: \<open>connect\<close> and every other call raise \<open>e\<close>.\<close>

definition unreachable_server :: "exn \<Rightarrow> 'r DNSServer" where
  "unreachable_server e =
     \<lparr>connect = (\<lambda>r. (Inl e, r)),
      get_records = (\<lambda>r. (Inl e, r)),
      add_record = (\<lambda>rcd r. (Inl e, r)),
      delete_record = (\<lambda>rcd r. (Inl e, r)),
      disconnect = (\<lambda>r. r)\<rparr>"

text \<open>An environment with e-mail configured, whose messages are built without an exception.\<close>

definition example_environ :: environ where
  "example_environ = \<lparr>smtp_host = ''mail.home'', smtp_to = ''admin@mail.home'', email_faults = []\<rparr>"


definition example_factory :: "ServerConfig \<Rightarrow> exn + (unit \<times> call list) DNSServer" where
  "example_factory cfg =
     (if cfg_name cfg = ''other''
      then Inr (traced (unreachable_server (ConnectionError ''connection refused'')))
      else Inr (traced (fake_server spoke_example accept accept)))"




section \<open>Example worlds, and the rows of an unreachable hub\<close>






section \<open>The store after a failed history write\<close>


section \<open>Facts about parsing\<close>

lemma find_sep_sound: "find_sep sep s = Some (a, b) \<Longrightarrow> s = a @ sep @ b"
proof (induction s arbitrary: a b)
  case Nil
  then show ?case by simp
next
  case (Cons c cs)
  show ?case
  proof (cases "take (length sep) (c # cs) = sep")
    case True
    with Cons.prems have "a = []" and "b = drop (length sep) (c # cs)" by simp_all
    with True show ?thesis by (metis append_Nil append_take_drop_id)
  next
    case False
    with Cons.prems obtain a' where "find_sep sep cs = Some (a', b)" and "a = c # a'"
      by (auto split: option.splits)
    with Cons.IH show ?thesis by simp
  qed
qed

lemma find_sep_complete:
  "sep \<noteq> [] \<Longrightarrow> \<exists>a' b'. find_sep sep (a @ sep @ b) = Some (a', b')"
proof (induction a)
  case Nil
  then obtain c cs where "sep @ b = c # cs" by (cases sep) auto
  then show ?case by (metis append_Nil append_eq_conv_conj find_sep.simps(2))
next
  case (Cons x a)
  then obtain a' b' where "find_sep sep (a @ sep @ b) = Some (a', b')" by blast
  then show ?case by simp
qed

lemma from_a_string_lossless:
  assumes "from_a_string s = Inr r"
  shows "to_a_format r = s" and "rtype r = ''A''"
proof -
  from assms obtain a b where f: "find_sep '' '' s = Some (a, b)"
    and r: "r = \<lparr>domain = b, rvalue = a, rtype = ''A'', ttl = None\<rparr>"
    by (auto simp: from_a_string_def unpack2_def split1_def split: option.splits)
  from find_sep_sound [OF f] r show "to_a_format r = s" by (simp add: to_a_format_def)
  from r show "rtype r = ''A''" by simp
qed

lemma from_cname_string_lossless:
  assumes "from_cname_string s = Inr r"
  shows "to_cname_format r = s" and "rtype r = ''CNAME''"
proof -
  from assms obtain a b where f: "find_sep '' -> '' s = Some (a, b)"
    and r: "r = \<lparr>domain = a, rvalue = b, rtype = ''CNAME'', ttl = None\<rparr>"
    by (auto simp: from_cname_string_def unpack2_def split1_def split: option.splits)
  from find_sep_sound [OF f] r show "to_cname_format r = s" by (simp add: to_cname_format_def)
  from r show "rtype r = ''CNAME''" by simp
qed

lemma from_a_string_total:
  "\<exists>r. from_a_string (ip @ '' '' @ dm) = Inr r"
proof -
  obtain a b where "find_sep '' '' (ip @ '' '' @ dm) = Some (a, b)"
    using find_sep_complete [of "'' ''" ip dm] by auto
  then show ?thesis by (simp add: from_a_string_def unpack2_def split1_def)
qed

lemma from_cname_string_total:
  "\<exists>r. from_cname_string (dm @ '' -> '' @ target) = Inr r"
proof -
  obtain a b where "find_sep '' -> '' (dm @ '' -> '' @ target) = Some (a, b)"
    using find_sep_complete [of "'' -> ''" dm target] by auto
  then show ?thesis by (simp add: from_cname_string_def unpack2_def split1_def)
qed

text \<open>
  C7. Parsing a canonical A string \<open>{ip} {domain}\<close> and formatting the record again gives
  the identical string, and so does parsing and formatting a canonical CNAME string
  \<open>{domain} -> {target}\<close>: the parse succeeds on every string that contains the separator,
  and the formatted result is the string that was parsed.
\<close>

theorem parse_format_roundtrip:
  "(\<exists>r. from_a_string (ip @ '' '' @ dm) = Inr r \<and> to_a_format r = ip @ '' '' @ dm) \<and>
   (\<exists>r. from_cname_string (d @ '' -> '' @ target) = Inr r
        \<and> to_cname_format r = d @ '' -> '' @ target)"
  using from_a_string_total [of ip dm] from_cname_string_total [of d target]
  by (auto dest: from_a_string_lossless(1) from_cname_string_lossless(1))

section \<open>The retry loop stops\<close>

lemma snd_send_scripted: "snd (send_request (scripted f) n) = Suc n"
  by (simp add: send_request_def scripted_def split: sum.splits)

lemma send_scripted: "send_request (scripted f) n = (outcome f n, Suc n)"
  by (metis outcome_def snd_send_scripted prod.collapse)

lemma retry_loop_scripted:
  "retry_loop retries (scripted f) [int n..retries - 1] n (backoff n) = (res, n', slept) \<Longrightarrow>
     (n' = n \<and> retries \<le> int n \<and> slept = backoff n \<and> res = Inr None) \<or>
     (n < n' \<and> int n' \<le> retries \<and> slept = backoff (n' - 1)
        \<and> res = raised (outcome f (n' - 1))
        \<and> (\<forall>k. n \<le> k \<and> k < n' - 1 \<longrightarrow> transient (outcome f k))
        \<and> (transient (outcome f (n' - 1)) \<longrightarrow> int n' = retries))"
proof (induction "nat (retries - int n)" arbitrary: n)
  case 0
  then have "[int n..retries - 1] = []" by simp
  with 0 show ?case by auto
next
  case (Suc k)
  then have *: "[int n..retries - 1] = int n # [int (Suc n)..retries - 1]"
    by (simp add: upto_rec1 add.commute)
  have bk: "backoff n @ [(int n + 1) * 2] = backoff (Suc n)" by (simp add: backoff_def)
  from Suc.hyps(2) have lt: "int n < retries" by simp
  show ?case
  proof (cases "outcome f n")
    case (Inr resp)
    with Suc.prems * lt show ?thesis by (auto simp: send_scripted raised_def transient_def)
  next
    case (Inl e)
    show ?thesis
    proof (cases "is_request_exception e \<and> int n \<noteq> retries - 1")
      case True
      with Suc.prems * Inl bk have "retry_loop retries (scripted f) [int (Suc n)..retries - 1] (Suc n) (backoff (Suc n)) = (res, n', slept)"
        by (simp add: send_scripted)
      moreover have "k = nat (retries - int (Suc n))" using Suc.hyps(2) by simp
      ultimately have IH: "(n' = Suc n \<and> retries \<le> int (Suc n) \<and> slept = backoff (Suc n) \<and> res = Inr None) \<or>
     (Suc n < n' \<and> int n' \<le> retries \<and> slept = backoff (n' - 1)
        \<and> res = raised (outcome f (n' - 1))
        \<and> (\<forall>k. Suc n \<le> k \<and> k < n' - 1 \<longrightarrow> transient (outcome f k))
        \<and> (transient (outcome f (n' - 1)) \<longrightarrow> int n' = retries))"
        using Suc.hyps(1) by blast
      from True lt have "int (Suc n) < retries" by simp
      with IH have IH': "Suc n < n'" "int n' \<le> retries" "slept = backoff (n' - 1)"
        "res = raised (outcome f (n' - 1))"
        "\<forall>k. Suc n \<le> k \<and> k < n' - 1 \<longrightarrow> transient (outcome f k)"
        "transient (outcome f (n' - 1)) \<longrightarrow> int n' = retries" by auto
      have "transient (outcome f n)" using Inl True by (simp add: transient_def)
      with IH'(5) have "\<forall>k. n \<le> k \<and> k < n' - 1 \<longrightarrow> transient (outcome f k)"
        by (metis Suc_leI le_neq_implies_less)
      with IH' show ?thesis by simp
    next
      case False
      with Suc.prems * Inl lt show ?thesis
        by (auto simp: send_scripted raised_def transient_def split: if_splits)
    qed
  qed
qed

lemma backoff_bounded: "list_all (\<lambda>w. 2 \<le> w \<and> w \<le> 2 * int k) (backoff k)"
  by (auto simp: backoff_def list_all_iff)

text \<open>
  C9. A request that keeps failing at the transport level is attempted at most
  \<open>retries\<close> times (the configured count, 3 by default), the waits between the attempts
  are 2, 4, 6, ... seconds (twice the number of the attempt that failed, at most
  \<open>2 * (retries - 1)\<close>), and when every attempt fails with a \<open>RequestException\<close> the
  exception of the last attempt is raised after exactly \<open>retries\<close> attempts. The loop
  is a total function: it never retries forever.
\<close>

theorem request_with_retry_bounded:
  assumes "request_with_retry retries (scripted f) 0 = (res, n, slept)"
  shows "int n \<le> max 0 retries \<and> slept = backoff (n - 1) \<and> length slept < max 1 (nat retries)
     \<and> list_all (\<lambda>w. 2 \<le> w \<and> w \<le> 2 * (retries - 1)) slept
     \<and> ((0 < retries \<and> (\<forall>k. int k < retries \<longrightarrow> transient (outcome f k)))
          \<longrightarrow> int n = retries \<and> res = raised (outcome f (n - 1)) \<and> (\<exists>e. res = Inl e))"
proof -
  from assms have "retry_loop retries (scripted f) [int 0..retries - 1] 0 (backoff 0) = (res, n, slept)"
    by (simp add: request_with_retry_def backoff_def)
  from retry_loop_scripted [OF this]
  have main: "int n \<le> max 0 retries \<and> slept = backoff (n - 1) \<and> length slept < max 1 (nat retries)
     \<and> ((0 < retries \<and> (\<forall>k. int k < retries \<longrightarrow> transient (outcome f k)))
          \<longrightarrow> int n = retries \<and> res = raised (outcome f (n - 1)) \<and> (\<exists>e. res = Inl e))"
    by (auto simp: backoff_def transient_def raised_def split: sum.splits)
  have bounded: "list_all (\<lambda>w. 2 \<le> w \<and> w \<le> 2 * (retries - 1)) slept"
  proof -
    from main have s: "slept = backoff (n - 1)" and "int n \<le> max 0 retries" by simp_all
    then have "2 * int (n - 1) \<le> 2 * (retries - 1) \<or> n - 1 = 0" by auto
    then show ?thesis
    proof
      assume "2 * int (n - 1) \<le> 2 * (retries - 1)"
      with backoff_bounded [of "n - 1"] s show ?thesis
        by (auto simp: list_all_iff)
    next
      assume "n - 1 = 0"
      with s show ?thesis by (simp add: backoff_def)
    qed
  qed
  from main bounded show ?thesis by blast
qed

theorem request_with_retry_bounded_witness:
  "request_with_retry 3 (scripted (\<lambda>k. Inl (RequestException ''timeout''))) 0
     = (Inl (RequestException ''timeout''), 3, [2, 4])
   \<and> int 3 \<le> max 0 3 \<and> [2, 4] = backoff (3 - 1) \<and> length [2, 4 :: int] < max 1 (nat 3)
   \<and> (0::int) < 3
   \<and> Inl (RequestException ''timeout'')
       = raised (outcome (\<lambda>k. Inl (RequestException ''timeout'')) (3 - 1))"
proof -
  let ?f = "\<lambda>k::nat. Inl (RequestException ''timeout'') :: exn + response"
  have run: "request_with_retry 3 (scripted ?f) 0 = (Inl (RequestException ''timeout''), 3, [2, 4])"
    by code_simp
  have tr: "\<forall>k. int k < 3 \<longrightarrow> transient (outcome ?f k)"
    by (simp add: transient_def outcome_def send_request_def scripted_def)
  note th = request_with_retry_bounded [OF run]
  have pos: "(0::int) < 3" by simp
  from th have a: "int 3 \<le> max 0 3" and b: "[2, 4] = backoff (3 - 1)"
    and c: "length [2, 4 :: int] < max 1 (nat 3)" by blast+
  from th tr pos have d: "Inl (RequestException ''timeout'') = raised (outcome ?f (3 - 1))"
    by blast
  from run a b c pos d show ?thesis by blast
qed

section \<open>The calls of the apply loops\<close>

lemma canonical_parse:
  assumes "canonical t x" and "t = ''A'' \<or> t = ''CNAME''"
  obtains rcd where "parse_record t x = Inr rcd" and "format_record rcd = x"
    and "rtype rcd = t"
proof -
  from assms(2) show ?thesis
  proof
    assume t: "t = ''A''"
    with assms(1) obtain a b where "find_sep '' '' x = Some (a, b)"
      by (auto simp: canonical_def)
    then obtain rcd where p: "from_a_string x = Inr rcd"
      by (simp add: from_a_string_def unpack2_def split1_def)
    with from_a_string_lossless [OF p] t that show ?thesis
      by (simp add: parse_record_def format_record_def)
  next
    assume t: "t = ''CNAME''"
    with assms(1) obtain a b where "find_sep '' -> '' x = Some (a, b)"
      by (auto simp: canonical_def)
    then obtain rcd where p: "from_cname_string x = Inr rcd"
      by (simp add: from_cname_string_def unpack2_def split1_def)
    with from_cname_string_lossless [OF p] t that show ?thesis
      by (simp add: parse_record_def format_record_def)
  qed
qed

lemma traced_add:
  "add_record srv rcd r = (x, r') \<Longrightarrow>
   add_record (traced srv) rcd (r, log) = (x, (r', log @ [AddRecord rcd x]))"
  by (simp add: traced_def)

lemma traced_delete:
  "delete_record srv rcd r = (x, r') \<Longrightarrow>
   delete_record (traced srv) rcd (r, log) = (x, (r', log @ [DeleteRecord rcd x]))"
  by (simp add: traced_def)

lemma tally_Cons: "tally P (x # xs) = (if P x then 1 else 0) + tally P xs"
  by (simp add: tally_def)

lemma tally_Nil: "tally P [] = 0"
  by (simp add: tally_def)

lemma tally_append: "tally P (xs @ ys) = tally P xs + tally P ys"
  by (simp add: tally_def)

lemma apply_adds_traced:
  assumes "list_all (canonical t) xs" and "t = ''A'' \<or> t = ''CNAME''"
  shows "\<exists>st' r' evs. apply_adds (traced srv) t xs st (r, log) = (Inr st', (r', log @ evs))
      \<and> map call_key evs = map (\<lambda>x. (True, t, x)) xs
      \<and> added st' = added st + tally add_ok evs
      \<and> removed st' = removed st + tally delete_ok evs
      \<and> conflicts st' = conflicts st + tally diff_conflict evs"
  using assms(1)
proof (induction xs arbitrary: st r log)
  case Nil
  show ?case by (simp add: tally_Nil)
next
  case (Cons x xs)
  from Cons.prems have cx: "canonical t x" and cxs: "list_all (canonical t) xs" by simp_all
  from canonical_parse [OF cx assms(2)] obtain rcd where p: "parse_record t x = Inr rcd"
    and f: "format_record rcd = x" and ty: "rtype rcd = t" by blast
  obtain res r1 where a: "add_record srv rcd r = (res, r1)" by (cases "add_record srv rcd r")
  define st1 where "st1 = (case res of Inr True \<Rightarrow> st\<lparr>added := added st + 1\<rparr> | Inr False \<Rightarrow> st\<lparr>conflicts := conflicts st + 1\<rparr>
                            | Inl e \<Rightarrow> st\<lparr>conflicts := conflicts st + 1\<rparr>)"
  have step: "apply_adds (traced srv) t (x # xs) st (r, log)
      = apply_adds (traced srv) t xs st1 (r1, log @ [AddRecord rcd res])"
    using p traced_add [OF a, of log] by (cases res) (auto simp: st1_def)
  from Cons.IH [OF cxs, of st1 r1 "log @ [AddRecord rcd res]"]
  obtain st' r' evs where
    run: "apply_adds (traced srv) t xs st1 (r1, log @ [AddRecord rcd res])
            = (Inr st', (r', (log @ [AddRecord rcd res]) @ evs))"
    and keys: "map call_key evs = map (\<lambda>x. (True, t, x)) xs"
    and ad: "added st' = added st1 + tally add_ok evs"
    and re: "removed st' = removed st1 + tally delete_ok evs"
    and co: "conflicts st' = conflicts st1 + tally diff_conflict evs" by blast
  let ?evs = "AddRecord rcd res # evs"
  have "apply_adds (traced srv) t (x # xs) st (r, log) = (Inr st', (r', log @ ?evs))"
    using step run by simp
  moreover have "map call_key ?evs = map (\<lambda>x. (True, t, x)) (x # xs)"
    using keys f ty by (simp add: call_key_def)
  moreover have "added st' = added st + tally add_ok ?evs"
    using ad by (cases res) (auto simp: st1_def tally_Cons add_ok_def returned_true_def split: bool.splits)
  moreover have "removed st' = removed st + tally delete_ok ?evs"
    using re by (cases res) (auto simp: st1_def tally_Cons delete_ok_def returned_true_def split: bool.splits)
  moreover have "conflicts st' = conflicts st + tally diff_conflict ?evs"
    using co
    by (cases res)
      (auto simp: st1_def tally_Cons diff_conflict_def call_raised_def returned_false_def
        split: bool.splits)
  ultimately show ?case by blast
qed

lemma apply_removes_traced:
  assumes "list_all (canonical t) xs" and "t = ''A'' \<or> t = ''CNAME''"
  shows "\<exists>st' r' evs. apply_removes (traced srv) t xs st (r, log) = (Inr st', (r', log @ evs))
      \<and> map call_key evs = map (\<lambda>x. (False, t, x)) xs
      \<and> added st' = added st + tally add_ok evs
      \<and> removed st' = removed st + tally delete_ok evs
      \<and> conflicts st' = conflicts st + tally diff_conflict evs"
  using assms(1)
proof (induction xs arbitrary: st r log)
  case Nil
  show ?case by (simp add: tally_Nil)
next
  case (Cons x xs)
  from Cons.prems have cx: "canonical t x" and cxs: "list_all (canonical t) xs" by simp_all
  from canonical_parse [OF cx assms(2)] obtain rcd where p: "parse_record t x = Inr rcd"
    and f: "format_record rcd = x" and ty: "rtype rcd = t" by blast
  obtain res r1 where a: "delete_record srv rcd r = (res, r1)" by (cases "delete_record srv rcd r")
  define st1 where "st1 = (case res of Inr True \<Rightarrow> st\<lparr>removed := removed st + 1\<rparr> | Inr False \<Rightarrow> st
                            | Inl e \<Rightarrow> st\<lparr>conflicts := conflicts st + 1\<rparr>)"
  have step: "apply_removes (traced srv) t (x # xs) st (r, log)
      = apply_removes (traced srv) t xs st1 (r1, log @ [DeleteRecord rcd res])"
    using p traced_delete [OF a, of log] by (cases res) (auto simp: st1_def)
  from Cons.IH [OF cxs, of st1 r1 "log @ [DeleteRecord rcd res]"]
  obtain st' r' evs where
    run: "apply_removes (traced srv) t xs st1 (r1, log @ [DeleteRecord rcd res])
            = (Inr st', (r', (log @ [DeleteRecord rcd res]) @ evs))"
    and keys: "map call_key evs = map (\<lambda>x. (False, t, x)) xs"
    and ad: "added st' = added st1 + tally add_ok evs"
    and re: "removed st' = removed st1 + tally delete_ok evs"
    and co: "conflicts st' = conflicts st1 + tally diff_conflict evs" by blast
  let ?evs = "DeleteRecord rcd res # evs"
  have "apply_removes (traced srv) t (x # xs) st (r, log) = (Inr st', (r', log @ ?evs))"
    using step run by simp
  moreover have "map call_key ?evs = map (\<lambda>x. (False, t, x)) (x # xs)"
    using keys f ty by (simp add: call_key_def)
  moreover have "added st' = added st + tally add_ok ?evs"
    using ad by (cases res) (auto simp: st1_def tally_Cons add_ok_def returned_true_def split: bool.splits)
  moreover have "removed st' = removed st + tally delete_ok ?evs"
    using re by (cases res) (auto simp: st1_def tally_Cons delete_ok_def returned_true_def split: bool.splits)
  moreover have "conflicts st' = conflicts st + tally diff_conflict ?evs"
    using co
    by (cases res)
      (auto simp: st1_def tally_Cons diff_conflict_def call_raised_def returned_false_def
        split: bool.splits)
  ultimately show ?case by blast
qed

lemma sync_adds_traced:
  assumes "list_all (canonical t) xs" and "t = ''A'' \<or> t = ''CNAME''"
  shows "\<exists>st' r' evs. sync_adds (traced srv) t xs st (r, log) = (Inr st', (r', log @ evs))
      \<and> map call_key evs = map (\<lambda>x. (True, t, x)) xs
      \<and> added st' = added st + tally add_ok evs
      \<and> removed st' = removed st + tally delete_ok evs
      \<and> conflicts st' = conflicts st + tally call_raised evs"
  using assms(1)
proof (induction xs arbitrary: st r log)
  case Nil
  show ?case by (simp add: tally_Nil)
next
  case (Cons x xs)
  from Cons.prems have cx: "canonical t x" and cxs: "list_all (canonical t) xs" by simp_all
  from canonical_parse [OF cx assms(2)] obtain rcd where p: "parse_record t x = Inr rcd"
    and f: "format_record rcd = x" and ty: "rtype rcd = t" by blast
  obtain res r1 where a: "add_record srv rcd r = (res, r1)" by (cases "add_record srv rcd r")
  define st1 where "st1 = (case res of Inr True \<Rightarrow> st\<lparr>added := added st + 1\<rparr> | Inr False \<Rightarrow> st
                            | Inl e \<Rightarrow> st\<lparr>conflicts := conflicts st + 1\<rparr>)"
  have step: "sync_adds (traced srv) t (x # xs) st (r, log)
      = sync_adds (traced srv) t xs st1 (r1, log @ [AddRecord rcd res])"
    using p traced_add [OF a, of log] by (cases res) (auto simp: st1_def)
  from Cons.IH [OF cxs, of st1 r1 "log @ [AddRecord rcd res]"]
  obtain st' r' evs where
    run: "sync_adds (traced srv) t xs st1 (r1, log @ [AddRecord rcd res])
            = (Inr st', (r', (log @ [AddRecord rcd res]) @ evs))"
    and keys: "map call_key evs = map (\<lambda>x. (True, t, x)) xs"
    and ad: "added st' = added st1 + tally add_ok evs"
    and re: "removed st' = removed st1 + tally delete_ok evs"
    and co: "conflicts st' = conflicts st1 + tally call_raised evs" by blast
  let ?evs = "AddRecord rcd res # evs"
  have "sync_adds (traced srv) t (x # xs) st (r, log) = (Inr st', (r', log @ ?evs))"
    using step run by simp
  moreover have "map call_key ?evs = map (\<lambda>x. (True, t, x)) (x # xs)"
    using keys f ty by (simp add: call_key_def)
  moreover have "added st' = added st + tally add_ok ?evs"
    using ad by (cases res) (auto simp: st1_def tally_Cons add_ok_def returned_true_def split: bool.splits)
  moreover have "removed st' = removed st + tally delete_ok ?evs"
    using re by (cases res) (auto simp: st1_def tally_Cons delete_ok_def returned_true_def split: bool.splits)
  moreover have "conflicts st' = conflicts st + tally call_raised ?evs"
    using co
    by (cases res)
      (auto simp: st1_def tally_Cons diff_conflict_def call_raised_def returned_false_def
        split: bool.splits)
  ultimately show ?case by blast
qed

lemma sync_removes_traced:
  assumes "list_all (canonical t) xs" and "t = ''A'' \<or> t = ''CNAME''"
  shows "\<exists>st' r' evs. sync_removes (traced srv) t xs st (r, log) = (Inr st', (r', log @ evs))
      \<and> map call_key evs = map (\<lambda>x. (False, t, x)) xs
      \<and> added st' = added st + tally add_ok evs
      \<and> removed st' = removed st + tally delete_ok evs
      \<and> conflicts st' = conflicts st + tally call_raised evs"
  using assms(1)
proof (induction xs arbitrary: st r log)
  case Nil
  show ?case by (simp add: tally_Nil)
next
  case (Cons x xs)
  from Cons.prems have cx: "canonical t x" and cxs: "list_all (canonical t) xs" by simp_all
  from canonical_parse [OF cx assms(2)] obtain rcd where p: "parse_record t x = Inr rcd"
    and f: "format_record rcd = x" and ty: "rtype rcd = t" by blast
  obtain res r1 where a: "delete_record srv rcd r = (res, r1)" by (cases "delete_record srv rcd r")
  define st1 where "st1 = (case res of Inr True \<Rightarrow> st\<lparr>removed := removed st + 1\<rparr> | Inr False \<Rightarrow> st
                            | Inl e \<Rightarrow> st\<lparr>conflicts := conflicts st + 1\<rparr>)"
  have step: "sync_removes (traced srv) t (x # xs) st (r, log)
      = sync_removes (traced srv) t xs st1 (r1, log @ [DeleteRecord rcd res])"
    using p traced_delete [OF a, of log] by (cases res) (auto simp: st1_def)
  from Cons.IH [OF cxs, of st1 r1 "log @ [DeleteRecord rcd res]"]
  obtain st' r' evs where
    run: "sync_removes (traced srv) t xs st1 (r1, log @ [DeleteRecord rcd res])
            = (Inr st', (r', (log @ [DeleteRecord rcd res]) @ evs))"
    and keys: "map call_key evs = map (\<lambda>x. (False, t, x)) xs"
    and ad: "added st' = added st1 + tally add_ok evs"
    and re: "removed st' = removed st1 + tally delete_ok evs"
    and co: "conflicts st' = conflicts st1 + tally call_raised evs" by blast
  let ?evs = "DeleteRecord rcd res # evs"
  have "sync_removes (traced srv) t (x # xs) st (r, log) = (Inr st', (r', log @ ?evs))"
    using step run by simp
  moreover have "map call_key ?evs = map (\<lambda>x. (False, t, x)) (x # xs)"
    using keys f ty by (simp add: call_key_def)
  moreover have "added st' = added st + tally add_ok ?evs"
    using ad by (cases res) (auto simp: st1_def tally_Cons add_ok_def returned_true_def split: bool.splits)
  moreover have "removed st' = removed st + tally delete_ok ?evs"
    using re by (cases res) (auto simp: st1_def tally_Cons delete_ok_def returned_true_def split: bool.splits)
  moreover have "conflicts st' = conflicts st + tally call_raised ?evs"
    using co
    by (cases res)
      (auto simp: st1_def tally_Cons diff_conflict_def call_raised_def returned_false_def
        split: bool.splits)
  ultimately show ?case by blast
qed

lemma traced_get_records:
  "get_records srv r = (x, r') \<Longrightarrow> get_records (traced srv) (r, log) = (x, (r', log))"
  by (simp add: traced_def)

lemma untraced_get_records:
  "get_records srv r = (x, r') \<Longrightarrow> get_records (untraced srv) (r, log) = (x, (r', log))"
  by (simp add: untraced_def)

lemma apply_type_traced:
  assumes "parseable S T t" and "t = ''A'' \<or> t = ''CNAME''"
  shows "\<exists>st' r' evs. apply_type S T (traced srv) t st (r, log) = (Inr st', (r', log @ evs))
      \<and> map call_key evs = planned S T t
      \<and> added st' = added st + tally add_ok evs
      \<and> removed st' = removed st + tally delete_ok evs
      \<and> conflicts st' = conflicts st + tally diff_conflict evs"
proof -
  let ?adds = "set_minus (get_set S t) (get_set T t)"
  let ?dels = "set_minus (get_set T t) (get_set S t)"
  from assms(1) have ca: "list_all (canonical t) ?adds" and cd: "list_all (canonical t) ?dels"
    by (simp_all add: parseable_def)
  from apply_adds_traced [OF ca assms(2), of srv st r log]
  obtain st1 r1 evs1 where
    run1: "apply_adds (traced srv) t ?adds st (r, log) = (Inr st1, (r1, log @ evs1))"
    and k1: "map call_key evs1 = map (\<lambda>x. (True, t, x)) ?adds"
    and a1: "added st1 = added st + tally add_ok evs1"
    and r1: "removed st1 = removed st + tally delete_ok evs1"
    and c1: "conflicts st1 = conflicts st + tally diff_conflict evs1" by blast
  from apply_removes_traced [OF cd assms(2), of srv st1 r1 "log @ evs1"]
  obtain st2 r2 evs2 where
    run2: "apply_removes (traced srv) t ?dels st1 (r1, log @ evs1)
             = (Inr st2, (r2, (log @ evs1) @ evs2))"
    and k2: "map call_key evs2 = map (\<lambda>x. (False, t, x)) ?dels"
    and a2: "added st2 = added st1 + tally add_ok evs2"
    and r2: "removed st2 = removed st1 + tally delete_ok evs2"
    and c2: "conflicts st2 = conflicts st1 + tally diff_conflict evs2" by blast
  have "apply_type S T (traced srv) t st (r, log) = (Inr st2, (r2, log @ (evs1 @ evs2)))"
    using run1 run2 by (simp add: apply_type_def)
  moreover have "map call_key (evs1 @ evs2) = planned S T t"
    using k1 k2 by (simp add: planned_def)
  moreover have "added st2 = added st + tally add_ok (evs1 @ evs2)"
    using a1 a2 by (simp add: tally_append)
  moreover have "removed st2 = removed st + tally delete_ok (evs1 @ evs2)"
    using r1 r2 by (simp add: tally_append)
  moreover have "conflicts st2 = conflicts st + tally diff_conflict (evs1 @ evs2)"
    using c1 c2 by (simp add: tally_append)
  ultimately show ?thesis by blast
qed

lemma apply_diff_traced:
  assumes g: "get_records srv r = (Inr T, r0)"
    and pa: "parseable S T ''A''" and pc: "parseable S T ''CNAME''"
  shows "\<exists>st r' evs. apply_diff S (traced srv) (r, log) = (Inr st, (r', log @ evs))
      \<and> map call_key evs = planned S T ''A'' @ planned S T ''CNAME''
      \<and> added st = tally add_ok evs
      \<and> removed st = tally delete_ok evs
      \<and> conflicts st = tally diff_conflict evs
      \<and> a_records st = length (get_set S ''A'')
      \<and> cname_records st = length (get_set S ''CNAME'')"
proof -
  let ?st0 = "\<lparr>added = 0, removed = 0, conflicts = 0, a_records = 0, cname_records = 0\<rparr>"
  from apply_type_traced [OF pa, of srv ?st0 r0 log]
  obtain st1 r1 evs1 where
    run1: "apply_type S T (traced srv) ''A'' ?st0 (r0, log) = (Inr st1, (r1, log @ evs1))"
    and k1: "map call_key evs1 = planned S T ''A''"
    and a1: "added st1 = added ?st0 + tally add_ok evs1"
    and r1: "removed st1 = removed ?st0 + tally delete_ok evs1"
    and c1: "conflicts st1 = conflicts ?st0 + tally diff_conflict evs1" by blast
  from apply_type_traced [OF pc, of srv st1 r1 "log @ evs1"]
  obtain st2 r2 evs2 where
    run2: "apply_type S T (traced srv) ''CNAME'' st1 (r1, log @ evs1)
             = (Inr st2, (r2, (log @ evs1) @ evs2))"
    and k2: "map call_key evs2 = planned S T ''CNAME''"
    and a2: "added st2 = added st1 + tally add_ok evs2"
    and r2: "removed st2 = removed st1 + tally delete_ok evs2"
    and c2: "conflicts st2 = conflicts st1 + tally diff_conflict evs2" by blast
  let ?st = "st2\<lparr>a_records := length (get_set S ''A''),
                  cname_records := length (get_set S ''CNAME'')\<rparr>"
  have "apply_diff S (traced srv) (r, log) = (Inr ?st, (r2, log @ (evs1 @ evs2)))"
    using traced_get_records [OF g, of log] run1 run2 by (simp add: apply_diff_def)
  moreover have "map call_key (evs1 @ evs2) = planned S T ''A'' @ planned S T ''CNAME''"
    using k1 k2 by simp
  moreover have "added ?st = tally add_ok (evs1 @ evs2)"
    using a1 a2 by (simp add: tally_append)
  moreover have "removed ?st = tally delete_ok (evs1 @ evs2)"
    using r1 r2 by (simp add: tally_append)
  moreover have "conflicts ?st = tally diff_conflict (evs1 @ evs2)"
    using c1 c2 by (simp add: tally_append)
  moreover have "a_records ?st = length (get_set S ''A'')"
    and "cname_records ?st = length (get_set S ''CNAME'')" by simp_all
  ultimately show ?thesis by blast
qed

lemma sync_type_traced:
  assumes "parseable S T t" and "t = ''A'' \<or> t = ''CNAME''"
  shows "\<exists>st' r' evs. sync_type S T (traced srv) False t st (r, log) = (Inr st', (r', log @ evs))
      \<and> map call_key evs = planned S T t
      \<and> added st' = added st + tally add_ok evs
      \<and> removed st' = removed st + tally delete_ok evs
      \<and> conflicts st' = conflicts st + tally call_raised evs"
proof -
  let ?adds = "set_minus (get_set S t) (get_set T t)"
  let ?dels = "set_minus (get_set T t) (get_set S t)"
  from assms(1) have ca: "list_all (canonical t) ?adds" and cd: "list_all (canonical t) ?dels"
    by (simp_all add: parseable_def)
  from sync_adds_traced [OF ca assms(2), of srv st r log]
  obtain st1 r1 evs1 where
    run1: "sync_adds (traced srv) t ?adds st (r, log) = (Inr st1, (r1, log @ evs1))"
    and k1: "map call_key evs1 = map (\<lambda>x. (True, t, x)) ?adds"
    and a1: "added st1 = added st + tally add_ok evs1"
    and r1: "removed st1 = removed st + tally delete_ok evs1"
    and c1: "conflicts st1 = conflicts st + tally call_raised evs1" by blast
  from sync_removes_traced [OF cd assms(2), of srv st1 r1 "log @ evs1"]
  obtain st2 r2 evs2 where
    run2: "sync_removes (traced srv) t ?dels st1 (r1, log @ evs1)
             = (Inr st2, (r2, (log @ evs1) @ evs2))"
    and k2: "map call_key evs2 = map (\<lambda>x. (False, t, x)) ?dels"
    and a2: "added st2 = added st1 + tally add_ok evs2"
    and r2: "removed st2 = removed st1 + tally delete_ok evs2"
    and c2: "conflicts st2 = conflicts st1 + tally call_raised evs2" by blast
  have "sync_type S T (traced srv) False t st (r, log) = (Inr st2, (r2, log @ (evs1 @ evs2)))"
    using run1 run2 by (simp add: sync_type_def)
  moreover have "map call_key (evs1 @ evs2) = planned S T t"
    using k1 k2 by (simp add: planned_def)
  moreover have "added st2 = added st + tally add_ok (evs1 @ evs2)"
    using a1 a2 by (simp add: tally_append)
  moreover have "removed st2 = removed st + tally delete_ok (evs1 @ evs2)"
    using r1 r2 by (simp add: tally_append)
  moreover have "conflicts st2 = conflicts st + tally call_raised (evs1 @ evs2)"
    using c1 c2 by (simp add: tally_append)
  ultimately show ?thesis by blast
qed

lemma sync_records_traced:
  assumes gs: "get_records src r = (Inr S, r1)" and gt: "get_records tgt r1 = (Inr T, r2)"
    and pa: "parseable S T ''A''" and pc: "parseable S T ''CNAME''"
  shows "\<exists>st r' evs.
        sync_records (untraced src) (traced tgt) False (r, log) = (Inr st, (r', log @ evs))
      \<and> map call_key evs = planned S T ''A'' @ planned S T ''CNAME''
      \<and> added st = tally add_ok evs
      \<and> removed st = tally delete_ok evs
      \<and> conflicts st = tally call_raised evs"
proof -
  let ?st0 = "\<lparr>added = 0, removed = 0, conflicts = 0\<rparr>"
  from sync_type_traced [OF pa, of tgt ?st0 r2 log]
  obtain st1 r3 evs1 where
    run1: "sync_type S T (traced tgt) False ''A'' ?st0 (r2, log) = (Inr st1, (r3, log @ evs1))"
    and k1: "map call_key evs1 = planned S T ''A''"
    and a1: "added st1 = added ?st0 + tally add_ok evs1"
    and r1: "removed st1 = removed ?st0 + tally delete_ok evs1"
    and c1: "conflicts st1 = conflicts ?st0 + tally call_raised evs1" by blast
  from sync_type_traced [OF pc, of tgt st1 r3 "log @ evs1"]
  obtain st2 r4 evs2 where
    run2: "sync_type S T (traced tgt) False ''CNAME'' st1 (r3, log @ evs1)
             = (Inr st2, (r4, (log @ evs1) @ evs2))"
    and k2: "map call_key evs2 = planned S T ''CNAME''"
    and a2: "added st2 = added st1 + tally add_ok evs2"
    and r2: "removed st2 = removed st1 + tally delete_ok evs2"
    and c2: "conflicts st2 = conflicts st1 + tally call_raised evs2" by blast
  have "sync_records (untraced src) (traced tgt) False (r, log)
          = (Inr st2, (r4, log @ (evs1 @ evs2)))"
    using untraced_get_records [OF gs, of log] traced_get_records [OF gt, of log] run1 run2
    by (simp add: sync_records_def)
  moreover have "map call_key (evs1 @ evs2) = planned S T ''A'' @ planned S T ''CNAME''"
    using k1 k2 by simp
  moreover have "added st2 = tally add_ok (evs1 @ evs2)"
    using a1 a2 by (simp add: tally_append)
  moreover have "removed st2 = tally delete_ok (evs1 @ evs2)"
    using r1 r2 by (simp add: tally_append)
  moreover have "conflicts st2 = tally call_raised (evs1 @ evs2)"
    using c1 c2 by (simp add: tally_append)
  ultimately show ?thesis by blast
qed

lemma sync_records_dry_run:
  assumes gs: "get_records src r = (Inr S, r1)" and gt: "get_records tgt r1 = (Inr T, r2)"
  shows "sync_records (untraced src) (traced tgt) True (r, log)
     = (Inr \<lparr>added = length (set_minus (get_set S ''A'') (get_set T ''A''))
                     + length (set_minus (get_set S ''CNAME'') (get_set T ''CNAME'')),
             removed = length (set_minus (get_set T ''A'') (get_set S ''A''))
                     + length (set_minus (get_set T ''CNAME'') (get_set S ''CNAME'')),
             conflicts = 0\<rparr>, (r2, log))"
  using untraced_get_records [OF gs, of log] traced_get_records [OF gt, of log]
  by (simp add: sync_records_def sync_type_def Let_def)

lemma sync_records_dry_run_log:
  "snd (snd (sync_records (untraced src) (traced tgt) True (r, log))) = log"
proof -
  obtain x r1 where gs: "get_records src r = (x, r1)" by (cases "get_records src r")
  obtain y r2 where gt: "get_records tgt r1 = (y, r2)" by (cases "get_records tgt r1")
  show ?thesis
    using untraced_get_records [OF gs, of log] traced_get_records [OF gt, of log]
    by (cases x; cases y) (simp_all add: sync_records_def sync_type_def Let_def)
qed

section \<open>What the engine asks of its target, and what comes of it\<close>

lemma set_set_minus: "set (set_minus a b) = set a - set b"
  by (auto simp: set_minus_def)

lemma length_set_minus: "distinct a \<Longrightarrow> length (set_minus a b) = card (set a - set b)"
  by (metis distinct_card distinct_filter set_minus_def set_set_minus)

lemma replay_append: "replay t (xs @ ys) X = replay t ys (replay t xs X)"
  by (simp add: replay_def)

lemma replay_adds:
  "list_all returned_true evs \<Longrightarrow> map call_key evs = map (\<lambda>x. (True, t', x)) xs \<Longrightarrow>
   replay t evs X = (if t' = t then X \<union> set xs else X)"
proof (induction evs arbitrary: xs X)
  case Nil
  then show ?case by (simp add: replay_def)
next
  case (Cons c evs)
  then obtain y ys where xs: "xs = y # ys" by (cases xs) auto
  with Cons.prems have k: "call_key c = (True, t', y)"
    and ks: "map call_key evs = map (\<lambda>x. (True, t', x)) ys"
    and ok: "returned_true c" "list_all returned_true evs" by simp_all
  have "replay t (c # evs) X = replay t evs (effect t c X)" by (simp add: replay_def)
  also have "\<dots> = (if t' = t then effect t c X \<union> set ys else effect t c X)"
    using Cons.IH [OF ok(2) ks] .
  also have "\<dots> = (if t' = t then X \<union> set xs else X)"
    using k ok(1) xs by (auto simp: effect_def call_key_def)
  finally show ?case .
qed

lemma replay_deletes:
  "list_all returned_true evs \<Longrightarrow> map call_key evs = map (\<lambda>x. (False, t', x)) xs \<Longrightarrow>
   replay t evs X = (if t' = t then X - set xs else X)"
proof (induction evs arbitrary: xs X)
  case Nil
  then show ?case by (simp add: replay_def)
next
  case (Cons c evs)
  then obtain y ys where xs: "xs = y # ys" by (cases xs) auto
  with Cons.prems have k: "call_key c = (False, t', y)"
    and ks: "map call_key evs = map (\<lambda>x. (False, t', x)) ys"
    and ok: "returned_true c" "list_all returned_true evs" by simp_all
  have "replay t (c # evs) X = replay t evs (effect t c X)" by (simp add: replay_def)
  also have "\<dots> = (if t' = t then effect t c X - set ys else effect t c X)"
    using Cons.IH [OF ok(2) ks] .
  also have "\<dots> = (if t' = t then X - set xs else X)"
    using k ok(1) xs by (auto simp: effect_def call_key_def)
  finally show ?case .
qed

lemma replay_planned:
  assumes "list_all returned_true evs" and "map call_key evs = planned S T t'"
  shows "replay t evs X =
     (if t' = t then (X \<union> (set (get_set S t) - set (get_set T t)))
                      - (set (get_set T t) - set (get_set S t))
      else X)"
proof -
  let ?adds = "set_minus (get_set S t') (get_set T t')"
  let ?dels = "set_minus (get_set T t') (get_set S t')"
  from assms(2) have "map call_key evs
      = map (\<lambda>x. (True, t', x)) ?adds @ map (\<lambda>x. (False, t', x)) ?dels"
    by (simp only: planned_def)
  then obtain e1 e2 where evs: "evs = e1 @ e2"
    and k1: "map call_key e1 = map (\<lambda>x. (True, t', x)) ?adds"
    and k2: "map call_key e2 = map (\<lambda>x. (False, t', x)) ?dels"
    by (auto simp only: map_eq_append_conv)
  from assms(1) evs have ok1: "list_all returned_true e1" and ok2: "list_all returned_true e2"
    by simp_all
  have "replay t evs X = replay t e2 (replay t e1 X)"
    by (simp only: evs replay_append)
  also have "replay t e1 X = (if t' = t then X \<union> set ?adds else X)"
    by (rule replay_adds [OF ok1 k1])
  also have "replay t e2 (if t' = t then X \<union> set ?adds else X)
      = (if t' = t then (if t' = t then X \<union> set ?adds else X) - set ?dels
         else (if t' = t then X \<union> set ?adds else X))"
    by (rule replay_deletes [OF ok2 k2])
  finally show ?thesis by (simp add: set_set_minus)
qed

lemma replay_converges:
  assumes "list_all returned_true evs"
    and "map call_key evs = planned S T ''A'' @ planned S T ''CNAME''"
    and "t = ''A'' \<or> t = ''CNAME''"
  shows "replay t evs (set (get_set T t)) = set (get_set S t)"
proof -
  from assms(2) obtain e1 e2 where evs: "evs = e1 @ e2"
    and k1: "map call_key e1 = planned S T ''A''" and k2: "map call_key e2 = planned S T ''CNAME''"
    by (auto simp only: map_eq_append_conv)
  from assms(1) evs have ok1: "list_all returned_true e1" and ok2: "list_all returned_true e2"
    by simp_all
  have ne: "''A'' \<noteq> ''CNAME''" by simp
  have split: "replay t evs (set (get_set T t))
      = replay t e2 (replay t e1 (set (get_set T t)))"
    by (simp only: evs replay_append)
  from assms(3) show ?thesis
  proof
    assume t: "t = ''A''"
    have "replay t e1 (set (get_set T t)) = set (get_set S t)"
      unfolding replay_planned [OF ok1 k1] using t by auto
    moreover have "replay t e2 (set (get_set S t)) = set (get_set S t)"
      unfolding replay_planned [OF ok2 k2] using t by simp
    ultimately show ?thesis using split by simp
  next
    assume t: "t = ''CNAME''"
    have "replay t e1 (set (get_set T t)) = set (get_set T t)"
      unfolding replay_planned [OF ok1 k1] using t by simp
    moreover have "replay t e2 (set (get_set T t)) = set (get_set S t)"
      unfolding replay_planned [OF ok2 k2] using t by auto
    ultimately show ?thesis using split by simp
  qed
qed

lemma tally_is_add_keys: "tally is_add evs = length (filter fst (map call_key evs))"
  by (induction evs) (auto simp: tally_def call_key_def)

lemma tally_is_delete_keys:
  "tally (\<lambda>c. \<not> is_add c) evs = length (filter (\<lambda>k. \<not> fst k) (map call_key evs))"
  by (induction evs) (auto simp: tally_def call_key_def)

lemma planned_adds: "length (filter fst (planned S T t)) = length (set_minus (get_set S t) (get_set T t))"
  by (simp add: planned_def filter_map comp_def)

lemma planned_deletes:
  "length (filter (\<lambda>k. \<not> fst k) (planned S T t)) = length (set_minus (get_set T t) (get_set S t))"
  by (simp add: planned_def filter_map comp_def)

lemma tally_all: "list_all Q xs \<Longrightarrow> tally (\<lambda>c. P c \<and> Q c) xs = tally P xs"
  by (induction xs) (auto simp: tally_def)

lemma all_ok_counts:
  assumes ok: "list_all returned_true evs"
    and keys: "map call_key evs = planned S T ''A'' @ planned S T ''CNAME''"
    and dist: "distinct (get_set S ''A'')" "distinct (get_set S ''CNAME'')"
      "distinct (get_set T ''A'')" "distinct (get_set T ''CNAME'')"
  shows "tally add_ok evs
       = card (set (get_set S ''A'') - set (get_set T ''A''))
       + card (set (get_set S ''CNAME'') - set (get_set T ''CNAME''))"
    and "tally delete_ok evs
       = card (set (get_set T ''A'') - set (get_set S ''A''))
       + card (set (get_set T ''CNAME'') - set (get_set S ''CNAME''))"
proof -
  have "tally add_ok evs = tally is_add evs"
    unfolding add_ok_def using ok by (rule tally_all)
  also have "\<dots> = length (filter fst (planned S T ''A'')) + length (filter fst (planned S T ''CNAME''))"
    by (simp add: tally_is_add_keys keys)
  finally show "tally add_ok evs
       = card (set (get_set S ''A'') - set (get_set T ''A''))
       + card (set (get_set S ''CNAME'') - set (get_set T ''CNAME''))"
    by (simp only: planned_adds length_set_minus [OF dist(1)] length_set_minus [OF dist(2)])
  have "tally delete_ok evs = tally (\<lambda>c. \<not> is_add c) evs"
    unfolding delete_ok_def using ok by (rule tally_all)
  also have "\<dots> = length (filter (\<lambda>k. \<not> fst k) (planned S T ''A''))
                 + length (filter (\<lambda>k. \<not> fst k) (planned S T ''CNAME''))"
    by (simp add: tally_is_delete_keys keys)
  finally show "tally delete_ok evs
       = card (set (get_set T ''A'') - set (get_set S ''A''))
       + card (set (get_set T ''CNAME'') - set (get_set S ''CNAME''))"
    by (simp only: planned_deletes length_set_minus [OF dist(3)] length_set_minus [OF dist(4)])
qed

text \<open>
  C1. For each record type the engine queues \<open>source - target\<close> for addition and
  \<open>target - source\<close> for removal, two disjoint sets; \<open>_apply_diff\<close> and \<open>sync_records\<close>
  call \<open>add_record\<close> and \<open>delete_record\<close> for exactly these strings, and when every one
  of these calls returns true the record set of the target after the calls is the source
  set, with \<open>added\<close> and \<open>removed\<close> the sizes of the two differences summed over the two
  types. The record sets hold canonical strings (the parse of the loops succeeds on them).
\<close>

theorem diff_converges:
  assumes gs: "get_records src r = (Inr S, r1)" and gt: "get_records tgt r1 = (Inr T, r2)"
    and pa: "parseable S T ''A''" and pc: "parseable S T ''CNAME''"
    and dist: "distinct (get_set S ''A'')" "distinct (get_set S ''CNAME'')"
      "distinct (get_set T ''A'')" "distinct (get_set T ''CNAME'')"
    and t: "t = ''A'' \<or> t = ''CNAME''"
    and run: "apply_diff S (traced tgt) (r1, []) = (res, (r', log))"
    and ok: "list_all returned_true log"
    and run2: "sync_records (untraced src) (traced tgt) False (r, []) = (res2, (r'', log2))"
    and ok2: "list_all returned_true log2"
  shows "set (set_minus (get_set S t) (get_set T t)) = set (get_set S t) - set (get_set T t)
     \<and> set (set_minus (get_set T t) (get_set S t)) = set (get_set T t) - set (get_set S t)
     \<and> set (set_minus (get_set S t) (get_set T t)) \<inter> set (set_minus (get_set T t) (get_set S t)) = {}
     \<and> map call_key log = planned S T ''A'' @ planned S T ''CNAME''
     \<and> replay t log (set (get_set T t)) = set (get_set S t)
     \<and> (\<exists>st. res = Inr st
           \<and> added st = card (set (get_set S ''A'') - set (get_set T ''A''))
                      + card (set (get_set S ''CNAME'') - set (get_set T ''CNAME''))
           \<and> removed st = card (set (get_set T ''A'') - set (get_set S ''A''))
                      + card (set (get_set T ''CNAME'') - set (get_set S ''CNAME'')))
     \<and> map call_key log2 = planned S T ''A'' @ planned S T ''CNAME''
     \<and> replay t log2 (set (get_set T t)) = set (get_set S t)
     \<and> (\<exists>st. res2 = Inr st
           \<and> added st = card (set (get_set S ''A'') - set (get_set T ''A''))
                      + card (set (get_set S ''CNAME'') - set (get_set T ''CNAME''))
           \<and> removed st = card (set (get_set T ''A'') - set (get_set S ''A''))
                      + card (set (get_set T ''CNAME'') - set (get_set S ''CNAME'')))"
proof -
  have d1: "set (set_minus (get_set S t) (get_set T t)) = set (get_set S t) - set (get_set T t)"
    and d2: "set (set_minus (get_set T t) (get_set S t)) = set (get_set T t) - set (get_set S t)"
    by (rule set_set_minus)+
  have d3: "set (set_minus (get_set S t) (get_set T t))
              \<inter> set (set_minus (get_set T t) (get_set S t)) = {}"
    unfolding d1 d2 by blast
  from apply_diff_traced [OF gt pa pc, of "[]"] run
  obtain st where res: "res = Inr st"
    and keys: "map call_key log = planned S T ''A'' @ planned S T ''CNAME''"
    and ad: "added st = tally add_ok log" and re: "removed st = tally delete_ok log"
    by auto
  note cnt = all_ok_counts [OF ok keys dist]
  have a: "\<exists>st. res = Inr st
           \<and> added st = card (set (get_set S ''A'') - set (get_set T ''A''))
                      + card (set (get_set S ''CNAME'') - set (get_set T ''CNAME''))
           \<and> removed st = card (set (get_set T ''A'') - set (get_set S ''A''))
                      + card (set (get_set T ''CNAME'') - set (get_set S ''CNAME''))"
    using res ad re cnt by simp
  from sync_records_traced [OF gs gt pa pc, of "[]"] run2
  obtain st2 where res2: "res2 = Inr st2"
    and keys2: "map call_key log2 = planned S T ''A'' @ planned S T ''CNAME''"
    and ad2: "added st2 = tally add_ok log2" and re2: "removed st2 = tally delete_ok log2"
    by auto
  note cnt2 = all_ok_counts [OF ok2 keys2 dist]
  have b: "\<exists>st. res2 = Inr st
           \<and> added st = card (set (get_set S ''A'') - set (get_set T ''A''))
                      + card (set (get_set S ''CNAME'') - set (get_set T ''CNAME''))
           \<and> removed st = card (set (get_set T ''A'') - set (get_set S ''A''))
                      + card (set (get_set T ''CNAME'') - set (get_set S ''CNAME''))"
    using res2 ad2 re2 cnt2 by simp
  note c1 = replay_converges [OF ok keys t]
  note c2 = replay_converges [OF ok2 keys2 t]
  from d1 d2 d3 keys c1 a keys2 c2 b show ?thesis by blast
qed

theorem diff_converges_witness:
  "get_records (fake_server hub_example accept accept) () = (Inr hub_example, ())
   \<and> get_records (fake_server spoke_example accept accept) () = (Inr spoke_example, ())
   \<and> parseable hub_example spoke_example ''A'' \<and> parseable hub_example spoke_example ''CNAME''
   \<and> apply_diff hub_example (traced (fake_server spoke_example accept accept)) ((), [])
       = (Inr \<lparr>added = 2, removed = 1, conflicts = 0, a_records = 2, cname_records = 1\<rparr>, (),
          [AddRecord \<lparr>domain = ''pi.home'', rvalue = ''5.6.7.8'', rtype = ''A'', ttl = None\<rparr>
             (Inr True),
           DeleteRecord \<lparr>domain = ''stale.home'', rvalue = ''9.9.9.9'', rtype = ''A'', ttl = None\<rparr>
             (Inr True),
           AddRecord \<lparr>domain = ''alias.home'', rvalue = ''nas.home'', rtype = ''CNAME'', ttl = None\<rparr>
             (Inr True)])
   \<and> replay ''A''
        [AddRecord \<lparr>domain = ''pi.home'', rvalue = ''5.6.7.8'', rtype = ''A'', ttl = None\<rparr>
           (Inr True),
         DeleteRecord \<lparr>domain = ''stale.home'', rvalue = ''9.9.9.9'', rtype = ''A'', ttl = None\<rparr>
           (Inr True),
         AddRecord \<lparr>domain = ''alias.home'', rvalue = ''nas.home'', rtype = ''CNAME'', ttl = None\<rparr>
           (Inr True)]
        (set (get_set spoke_example ''A'')) = set (get_set hub_example ''A'')"
proof -
  let ?src = "fake_server hub_example accept accept :: unit DNSServer"
  let ?tgt = "fake_server spoke_example accept accept :: unit DNSServer"
  let ?log = "[AddRecord \<lparr>domain = ''pi.home'', rvalue = ''5.6.7.8'', rtype = ''A'', ttl = None\<rparr>
             (Inr True),
           DeleteRecord \<lparr>domain = ''stale.home'', rvalue = ''9.9.9.9'', rtype = ''A'', ttl = None\<rparr>
             (Inr True),
           AddRecord \<lparr>domain = ''alias.home'', rvalue = ''nas.home'', rtype = ''CNAME'', ttl = None\<rparr>
             (Inr True)]"
  have gs: "get_records ?src () = (Inr hub_example, ())" by (simp add: fake_server_def)
  have gt: "get_records ?tgt () = (Inr spoke_example, ())" by (simp add: fake_server_def)
  have pa: "parseable hub_example spoke_example ''A''" by code_simp
  have pc: "parseable hub_example spoke_example ''CNAME''" by code_simp
  have d1: "distinct (get_set hub_example ''A'')" by code_simp
  have d2: "distinct (get_set hub_example ''CNAME'')" by code_simp
  have d3: "distinct (get_set spoke_example ''A'')" by code_simp
  have d4: "distinct (get_set spoke_example ''CNAME'')" by code_simp
  have t: "''A'' = ''A'' \<or> ''A'' = ''CNAME''" by simp
  have run: "apply_diff hub_example (traced ?tgt) ((), [])
       = (Inr \<lparr>added = 2, removed = 1, conflicts = 0, a_records = 2, cname_records = 1\<rparr>,
          ((), ?log))"
    by code_simp
  have ok: "list_all returned_true ?log" by (simp add: returned_true_def)
  have run2: "sync_records (untraced ?src) (traced ?tgt) False ((), [])
       = (Inr \<lparr>added = 2, removed = 1, conflicts = 0\<rparr>, ((), ?log))"
    by code_simp
  from diff_converges [OF gs gt pa pc d1 d2 d3 d4 t run ok run2 ok]
  have "replay ''A'' ?log (set (get_set spoke_example ''A'')) = set (get_set hub_example ''A'')"
    by blast
  with gs gt pa pc run show ?thesis by blast
qed

text \<open>
  C4. In the non-dry-run apply every queued addition and removal is attempted, once and
  in the queued order, whatever the calls before it returned or raised. \<open>added\<close> counts
  the \<open>add_record\<close> calls that returned true and \<open>removed\<close> the \<open>delete_record\<close> calls that
  returned true. In \<open>_apply_diff\<close>, \<open>conflicts\<close> counts the \<open>add_record\<close> calls that returned
  false and the calls of either method that raised; a \<open>delete_record\<close> that returns false
  is logged and counted nowhere. In \<open>sync_records\<close>, \<open>conflicts\<close> counts only the calls
  that raised.
\<close>

theorem apply_counts_calls:
  assumes gs: "get_records src r = (Inr S, r1)" and gt: "get_records tgt r1 = (Inr T, r2)"
    and pa: "parseable S T ''A''" and pc: "parseable S T ''CNAME''"
  shows "(\<exists>st r' evs. apply_diff S (traced tgt) (r1, log) = (Inr st, (r', log @ evs))
            \<and> map call_key evs = planned S T ''A'' @ planned S T ''CNAME''
            \<and> added st = tally add_ok evs
            \<and> removed st = tally delete_ok evs
            \<and> conflicts st = tally diff_conflict evs)
       \<and> (\<exists>st r' evs.
              sync_records (untraced src) (traced tgt) False (r, log) = (Inr st, (r', log @ evs))
            \<and> map call_key evs = planned S T ''A'' @ planned S T ''CNAME''
            \<and> added st = tally add_ok evs
            \<and> removed st = tally delete_ok evs
            \<and> conflicts st = tally call_raised evs)"
proof
  from apply_diff_traced [OF gt pa pc, of log]
  show "\<exists>st r' evs. apply_diff S (traced tgt) (r1, log) = (Inr st, (r', log @ evs))
            \<and> map call_key evs = planned S T ''A'' @ planned S T ''CNAME''
            \<and> added st = tally add_ok evs
            \<and> removed st = tally delete_ok evs
            \<and> conflicts st = tally diff_conflict evs"
    by blast
  from sync_records_traced [OF gs gt pa pc, of log]
  show "\<exists>st r' evs.
              sync_records (untraced src) (traced tgt) False (r, log) = (Inr st, (r', log @ evs))
            \<and> map call_key evs = planned S T ''A'' @ planned S T ''CNAME''
            \<and> added st = tally add_ok evs
            \<and> removed st = tally delete_ok evs
            \<and> conflicts st = tally call_raised evs"
    by blast
qed

theorem apply_counts_calls_witness:
  "get_records (fake_server hub_example accept accept) () = (Inr hub_example, ())
   \<and> get_records (fake_server spoke_example (accept_except ''5.6.7.8 pi.home'') reject) ()
       = (Inr spoke_example, ())
   \<and> parseable hub_example spoke_example ''A'' \<and> parseable hub_example spoke_example ''CNAME''
   \<and> (\<exists>st r' evs.
          apply_diff hub_example
            (traced (fake_server spoke_example (accept_except ''5.6.7.8 pi.home'') reject))
            ((), []) = (Inr st, (r', [] @ evs))
        \<and> map call_key evs
            = planned hub_example spoke_example ''A'' @ planned hub_example spoke_example ''CNAME''
        \<and> added st = tally add_ok evs
        \<and> removed st = tally delete_ok evs
        \<and> conflicts st = tally diff_conflict evs)"
proof -
  let ?src = "fake_server hub_example accept accept :: unit DNSServer"
  let ?tgt = "fake_server spoke_example (accept_except ''5.6.7.8 pi.home'') reject :: unit DNSServer"
  have gs: "get_records ?src () = (Inr hub_example, ())" by (simp add: fake_server_def)
  have gt: "get_records ?tgt () = (Inr spoke_example, ())" by (simp add: fake_server_def)
  have pa: "parseable hub_example spoke_example ''A''" by code_simp
  have pc: "parseable hub_example spoke_example ''CNAME''" by code_simp
  from apply_counts_calls [OF gs gt pa pc, of "[]"] gs gt pa pc show ?thesis by blast
qed

theorem conflicts_not_all_failures_counterexample:
  "apply_diff hub_example
     (traced (fake_server spoke_example (accept_except ''5.6.7.8 pi.home'') reject)) ((), [])
     = (Inr \<lparr>added = 1, removed = 0, conflicts = 1, a_records = 2, cname_records = 1\<rparr>, (),
        [AddRecord \<lparr>domain = ''pi.home'', rvalue = ''5.6.7.8'', rtype = ''A'', ttl = None\<rparr>
           (Inr False),
         DeleteRecord \<lparr>domain = ''stale.home'', rvalue = ''9.9.9.9'', rtype = ''A'', ttl = None\<rparr>
           (Inr False),
         AddRecord \<lparr>domain = ''alias.home'', rvalue = ''nas.home'', rtype = ''CNAME'', ttl = None\<rparr>
           (Inr True)])
   \<and> sync_records (untraced (fake_server hub_example accept accept))
        (traced (fake_server spoke_example (accept_except ''5.6.7.8 pi.home'') reject)) False
        ((), [])
     = (Inr \<lparr>added = 1, removed = 0, conflicts = 0\<rparr>, (),
        [AddRecord \<lparr>domain = ''pi.home'', rvalue = ''5.6.7.8'', rtype = ''A'', ttl = None\<rparr>
           (Inr False),
         DeleteRecord \<lparr>domain = ''stale.home'', rvalue = ''9.9.9.9'', rtype = ''A'', ttl = None\<rparr>
           (Inr False),
         AddRecord \<lparr>domain = ''alias.home'', rvalue = ''nas.home'', rtype = ''CNAME'', ttl = None\<rparr>
           (Inr True)])
   \<and> tally claimed_conflict
        [AddRecord \<lparr>domain = ''pi.home'', rvalue = ''5.6.7.8'', rtype = ''A'', ttl = None\<rparr>
           (Inr False),
         DeleteRecord \<lparr>domain = ''stale.home'', rvalue = ''9.9.9.9'', rtype = ''A'', ttl = None\<rparr>
           (Inr False),
         AddRecord \<lparr>domain = ''alias.home'', rvalue = ''nas.home'', rtype = ''CNAME'', ttl = None\<rparr>
           (Inr True)] = 2"
  by code_simp

lemma non_dry_run_call_counts:
  assumes "map call_key evs = planned S T ''A'' @ planned S T ''CNAME''"
  shows "tally is_add evs
       = length (set_minus (get_set S ''A'') (get_set T ''A''))
       + length (set_minus (get_set S ''CNAME'') (get_set T ''CNAME''))"
    and "tally (\<lambda>c. \<not> is_add c) evs
       = length (set_minus (get_set T ''A'') (get_set S ''A''))
       + length (set_minus (get_set T ''CNAME'') (get_set S ''CNAME''))"
  by (simp_all add: tally_is_add_keys tally_is_delete_keys assms planned_adds planned_deletes)

text \<open>
  C8. With \<open>dry_run=True\<close>, \<open>sync_records\<close> makes no \<open>add_record\<close> and no \<open>delete_record\<close>
  call on the target, whatever the two servers report. When both report their records,
  its \<open>added\<close> is the size of \<open>source - target\<close> and its \<open>removed\<close> the size of
  \<open>target - source\<close>, summed over the two record types: the numbers of \<open>add_record\<close> and
  \<open>delete_record\<close> calls that the run without \<open>dry_run\<close> makes from the same state.
\<close>

theorem dry_run_makes_no_calls:
  "snd (snd (sync_records (untraced src) (traced tgt) True (r, log))) = log
   \<and> (get_records src r = (Inr S, r1) \<and> get_records tgt r1 = (Inr T, r2) \<longrightarrow>
        sync_records (untraced src) (traced tgt) True (r, log)
          = (Inr \<lparr>added = length (set_minus (get_set S ''A'') (get_set T ''A''))
                          + length (set_minus (get_set S ''CNAME'') (get_set T ''CNAME'')),
                  removed = length (set_minus (get_set T ''A'') (get_set S ''A''))
                          + length (set_minus (get_set T ''CNAME'') (get_set S ''CNAME'')),
                  conflicts = 0\<rparr>, (r2, log))
        \<and> set (set_minus (get_set S t) (get_set T t)) = set (get_set S t) - set (get_set T t)
        \<and> set (set_minus (get_set T t) (get_set S t)) = set (get_set T t) - set (get_set S t)
        \<and> (parseable S T ''A'' \<and> parseable S T ''CNAME'' \<longrightarrow>
             (\<exists>st r' evs.
                sync_records (untraced src) (traced tgt) False (r, log) = (Inr st, (r', log @ evs))
              \<and> tally is_add evs
                  = length (set_minus (get_set S ''A'') (get_set T ''A''))
                  + length (set_minus (get_set S ''CNAME'') (get_set T ''CNAME''))
              \<and> tally (\<lambda>c. \<not> is_add c) evs
                  = length (set_minus (get_set T ''A'') (get_set S ''A''))
                  + length (set_minus (get_set T ''CNAME'') (get_set S ''CNAME'')))))"
proof (intro conjI impI)
  show "snd (snd (sync_records (untraced src) (traced tgt) True (r, log))) = log"
    by (rule sync_records_dry_run_log)
next
  assume g: "get_records src r = (Inr S, r1) \<and> get_records tgt r1 = (Inr T, r2)"
  then show "sync_records (untraced src) (traced tgt) True (r, log)
          = (Inr \<lparr>added = length (set_minus (get_set S ''A'') (get_set T ''A''))
                          + length (set_minus (get_set S ''CNAME'') (get_set T ''CNAME'')),
                  removed = length (set_minus (get_set T ''A'') (get_set S ''A''))
                          + length (set_minus (get_set T ''CNAME'') (get_set S ''CNAME'')),
                  conflicts = 0\<rparr>, (r2, log))"
    by (simp add: sync_records_dry_run)
next
  show "set (set_minus (get_set S t) (get_set T t)) = set (get_set S t) - set (get_set T t)"
    by (rule set_set_minus)
next
  show "set (set_minus (get_set T t) (get_set S t)) = set (get_set T t) - set (get_set S t)"
    by (rule set_set_minus)
next
  assume g: "get_records src r = (Inr S, r1) \<and> get_records tgt r1 = (Inr T, r2)"
    and p: "parseable S T ''A'' \<and> parseable S T ''CNAME''"
  from g p sync_records_traced [of src r S r1 tgt T r2 log]
  obtain st r' evs where
    run: "sync_records (untraced src) (traced tgt) False (r, log) = (Inr st, (r', log @ evs))"
    and keys: "map call_key evs = planned S T ''A'' @ planned S T ''CNAME''" by blast
  from run non_dry_run_call_counts [OF keys]
  show "\<exists>st r' evs.
                sync_records (untraced src) (traced tgt) False (r, log) = (Inr st, (r', log @ evs))
              \<and> tally is_add evs
                  = length (set_minus (get_set S ''A'') (get_set T ''A''))
                  + length (set_minus (get_set S ''CNAME'') (get_set T ''CNAME''))
              \<and> tally (\<lambda>c. \<not> is_add c) evs
                  = length (set_minus (get_set T ''A'') (get_set S ''A''))
                  + length (set_minus (get_set T ''CNAME'') (get_set S ''CNAME''))"
    by blast
qed

theorem dry_run_makes_no_calls_witness:
  "get_records (fake_server hub_example accept accept) () = (Inr hub_example, ())
   \<and> get_records (fake_server spoke_example accept accept) () = (Inr spoke_example, ())
   \<and> snd (snd (sync_records (untraced (fake_server hub_example accept accept))
                  (traced (fake_server spoke_example accept accept)) True ((), []))) = []
   \<and> sync_records (untraced (fake_server hub_example accept accept))
        (traced (fake_server spoke_example accept accept)) True ((), [])
       = (Inr \<lparr>added = 2, removed = 1, conflicts = 0\<rparr>, ((), []))
   \<and> parseable hub_example spoke_example ''A'' \<and> parseable hub_example spoke_example ''CNAME''
   \<and> (\<exists>st r' evs.
          sync_records (untraced (fake_server hub_example accept accept))
            (traced (fake_server spoke_example accept accept)) False ((), [])
            = (Inr st, (r', [] @ evs))
        \<and> tally is_add evs = 2 \<and> tally (\<lambda>c. \<not> is_add c) evs = 1)"
proof -
  let ?src = "fake_server hub_example accept accept :: unit DNSServer"
  let ?tgt = "fake_server spoke_example accept accept :: unit DNSServer"
  have gs: "get_records ?src () = (Inr hub_example, ())" by (simp add: fake_server_def)
  have gt: "get_records ?tgt () = (Inr spoke_example, ())" by (simp add: fake_server_def)
  have pa: "parseable hub_example spoke_example ''A''" by code_simp
  have pc: "parseable hub_example spoke_example ''CNAME''" by code_simp
  have n: "length (set_minus (get_set hub_example ''A'') (get_set spoke_example ''A''))
         + length (set_minus (get_set hub_example ''CNAME'') (get_set spoke_example ''CNAME'')) = 2"
    "length (set_minus (get_set spoke_example ''A'') (get_set hub_example ''A''))
         + length (set_minus (get_set spoke_example ''CNAME'') (get_set hub_example ''CNAME'')) = 1"
    by code_simp+
  note th = dry_run_makes_no_calls [of ?src ?tgt "()" "[]" hub_example "()" spoke_example "()" "''A''"]
  from th have a: "snd (snd (sync_records (untraced ?src) (traced ?tgt) True ((), []))) = []"
    by blast
  from th gs gt have "sync_records (untraced ?src) (traced ?tgt) True ((), [])
          = (Inr \<lparr>added = length (set_minus (get_set hub_example ''A'') (get_set spoke_example ''A''))
                          + length (set_minus (get_set hub_example ''CNAME'') (get_set spoke_example ''CNAME'')),
                  removed = length (set_minus (get_set spoke_example ''A'') (get_set hub_example ''A''))
                          + length (set_minus (get_set spoke_example ''CNAME'') (get_set hub_example ''CNAME'')),
                  conflicts = 0\<rparr>, ((), []))"
    by blast
  then have b: "sync_records (untraced ?src) (traced ?tgt) True ((), [])
       = (Inr \<lparr>added = 2, removed = 1, conflicts = 0\<rparr>, ((), []))"
    by (simp only: n)
  from th gs gt pa pc have "\<exists>st r' evs.
                sync_records (untraced ?src) (traced ?tgt) False ((), []) = (Inr st, (r', [] @ evs))
              \<and> tally is_add evs
                  = length (set_minus (get_set hub_example ''A'') (get_set spoke_example ''A''))
                  + length (set_minus (get_set hub_example ''CNAME'') (get_set spoke_example ''CNAME''))
              \<and> tally (\<lambda>c. \<not> is_add c) evs
                  = length (set_minus (get_set spoke_example ''A'') (get_set hub_example ''A''))
                  + length (set_minus (get_set spoke_example ''CNAME'') (get_set hub_example ''CNAME''))"
    by blast
  then have c: "\<exists>st r' evs.
          sync_records (untraced ?src) (traced ?tgt) False ((), []) = (Inr st, (r', [] @ evs))
        \<and> tally is_add evs = 2 \<and> tally (\<lambda>c. \<not> is_add c) evs = 1"
    by (simp only: n)
  from gs gt a b pa pc c show ?thesis by (intro conjI)
qed

section \<open>Facts about the store\<close>

lemma db_connect_healthy: "faults d = [] \<Longrightarrow> db_connect d = (False, d)"
  by (simp add: db_connect_def)

lemma record_sync_healthy:
  "faults d = [] \<Longrightarrow>
   record_sync n ty ro st err d = (Inr (), d\<lparr>sync_runs := sync_runs d @ [sync_row n ty ro st err]\<rparr>)"
  by (simp add: record_sync_def db_connect_healthy)


lemma save_hub_records_healthy:
  "faults d = [] \<Longrightarrow>
   save_hub_records n records d
     = (Inr (), d\<lparr>authoritative_records := delete_rows n (authoritative_records d) @ rows_of n records,
                   cache_meta := filter (\<lambda>h. h \<noteq> n) (cache_meta d) @ [n]\<rparr>)"
  by (simp add: save_hub_records_def db_connect_healthy)

lemma get_cached_hub_records_healthy:
  "faults d = [] \<Longrightarrow>
   get_cached_hub_records n d = (Inr (rows_to_dict (select_rows n (authoritative_records d))), d)"
  by (simp add: get_cached_hub_records_def db_connect_healthy)

lemma select_rows_of: "select_rows n (rows_of n records) = items_of records"
proof -
  have "filter (\<lambda>row. fst row = n) (rows_of n records) = rows_of n records"
    by (rule filter_True) (auto simp: rows_of_def)
  then show ?thesis
    by (simp add: select_rows_def rows_of_def items_of_def map_concat comp_def split_def)
qed

lemma select_delete_rows: "select_rows n (delete_rows n table) = []"
  by (simp add: select_rows_def delete_rows_def)

lemma select_rows_append: "select_rows n (a @ b) = select_rows n a @ select_rows n b"
  by (simp add: select_rows_def)

lemma select_after_replace:
  "select_rows n (delete_rows n table @ rows_of n records) = items_of records"
  by (simp add: select_rows_append select_delete_rows select_rows_of)




lemma set_items_of: "set (items_of records) = {(t, s). \<exists>v. (t, v) \<in> set records \<and> s \<in> set v}"
  by (auto simp: items_of_def)

lemma items_of_empty: "(items_of records = []) = list_all (\<lambda>kv. snd kv = []) records"
  by (induction records) (auto simp: items_of_def)

lemma get_set_items:
  assumes "distinct (map fst records)"
  shows "{s. (t, s) \<in> set (items_of records)} = set (get_set records t)"
proof (cases "map_of records t")
  case None
  then have "\<And>v. (t, v) \<notin> set records" by (metis map_of_eq_None_iff image_eqI fst_conv)
  with None show ?thesis by (simp add: set_items_of get_set_def)
next
  case (Some v)
  with assms have "\<And>v'. ((t, v') \<in> set records) = (v' = v)"
    by (metis map_of_SomeD eq_key_imp_eq_value)
  with Some show ?thesis by (simp add: set_items_of get_set_def)
qed

lemma keys_items:
  assumes "distinct (map fst records)"
  shows "fst ` set (items_of records) = {t. get_set records t \<noteq> []}"
proof -
  have "\<And>t. (t \<in> fst ` set (items_of records)) = ({s. (t, s) \<in> set (items_of records)} \<noteq> {})"
    by force
  then show ?thesis unfolding get_set_items [OF assms] by auto
qed

lemma map_of_dict_add:
  "map_of (dict_add d t s) t' =
     (if t' = t then Some (case map_of d t of None \<Rightarrow> [s]
                                       | Some v \<Rightarrow> if s \<in> set v then v else v @ [s])
      else map_of d t')"
  by (induction d t s rule: dict_add.induct) auto

lemma get_set_dict_add:
  "set (get_set (dict_add d t s) t') =
     (if t' = t then insert s (set (get_set d t)) else set (get_set d t'))"
  by (auto simp: get_set_def map_of_dict_add split: option.splits)

lemma keys_dict_add: "fst ` set (dict_add d t s) = insert t (fst ` set d)"
  by (induction d t s rule: dict_add.induct) auto

lemma distinct_dict_add: "distinct (map fst d) \<Longrightarrow> distinct (map fst (dict_add d t s))"
proof (induction d t s rule: dict_add.induct)
  case (1 t s)
  show ?case by simp
next
  case (2 k v kvs t s)
  show ?case
  proof (cases "k = t")
    case True
    with 2 show ?thesis by simp
  next
    case False
    with 2 have "distinct (map fst (dict_add kvs t s))" by simp
    moreover from 2 False have "k \<notin> fst ` set (dict_add kvs t s)"
      unfolding keys_dict_add by auto
    ultimately show ?thesis using False by simp
  qed
qed

lemma fold_dict_add_get:
  "set (get_set (fold (\<lambda>(t, s) d. dict_add d t s) rows d) t')
     = set (get_set d t') \<union> {s. (t', s) \<in> set rows}"
proof (induction rows arbitrary: d)
  case Nil
  show ?case by simp
next
  case (Cons row rows)
  obtain t s where row: "row = (t, s)" by (cases row)
  show ?case unfolding row using Cons.IH [of "dict_add d t s"]
    by (auto simp: get_set_dict_add split: if_splits)
qed

lemma fold_dict_add_keys:
  "fst ` set (fold (\<lambda>(t, s) d. dict_add d t s) rows d) = fst ` set d \<union> fst ` set rows"
proof (induction rows arbitrary: d)
  case Nil
  show ?case by simp
next
  case (Cons row rows)
  obtain t s where row: "row = (t, s)" by (cases row)
  show ?case unfolding row using Cons.IH [of "dict_add d t s"]
    by (auto simp: keys_dict_add)
qed

lemma fold_dict_add_distinct:
  "distinct (map fst d) \<Longrightarrow> distinct (map fst (fold (\<lambda>(t, s) d. dict_add d t s) rows d))"
proof (induction rows arbitrary: d)
  case Nil
  then show ?case by simp
next
  case (Cons row rows)
  obtain t s where row: "row = (t, s)" by (cases row)
  from Cons.prems show ?case unfolding row using Cons.IH [of "dict_add d t s"]
    by (simp add: distinct_dict_add)
qed

lemma rows_to_dict_items:
  assumes "distinct (map fst records)"
  shows "rows_to_dict (items_of records) =
     (if list_all (\<lambda>kv. snd kv = []) records then None
      else Some (fold (\<lambda>(t, s) d. dict_add d t s) (items_of records) []))"
    and "distinct (map fst (fold (\<lambda>(t, s) d. dict_add d t s) (items_of records) []))"
    and "fst ` set (fold (\<lambda>(t, s) d. dict_add d t s) (items_of records) [])
           = {t. get_set records t \<noteq> []}"
    and "set (get_set (fold (\<lambda>(t, s) d. dict_add d t s) (items_of records) []) t)
           = set (get_set records t)"
proof -
  show "rows_to_dict (items_of records) =
     (if list_all (\<lambda>kv. snd kv = []) records then None
      else Some (fold (\<lambda>(t, s) d. dict_add d t s) (items_of records) []))"
    by (simp add: rows_to_dict_def items_of_empty)
  show "distinct (map fst (fold (\<lambda>(t, s) d. dict_add d t s) (items_of records) []))"
    by (rule fold_dict_add_distinct) simp
  show "fst ` set (fold (\<lambda>(t, s) d. dict_add d t s) (items_of records) [])
           = {t. get_set records t \<noteq> []}"
    by (simp add: fold_dict_add_keys keys_items [OF assms])
  show "set (get_set (fold (\<lambda>(t, s) d. dict_add d t s) (items_of records) []) t)
           = set (get_set records t)"
    unfolding fold_dict_add_get get_set_items [OF assms] by (simp add: get_set_def)
qed

section \<open>Facts about notifications\<close>


lemma dispatch_raises:
  assumes "smtp_host (environ w) \<noteq> []" and "smtp_to (environ w) \<noteq> []"
    and "email_faults (environ w) = Some e # rest"
  shows "fst (dispatch n w) = Inl e"
  using assms by (simp add: dispatch_def send_email_def Let_def)







section \<open>The degraded branch: no authoritative cache\<close>

lemma spokes_loop_unavailable:
  "faults (db w) = [] \<Longrightarrow>
   spokes_loop cs None spokes res w =
     (Inr (unavailable_results spokes res),
      w\<lparr>db := (db w)\<lparr>sync_runs := sync_runs (db w) @ map unavailable_row (filter is_enabled spokes)\<rparr>\<rparr>)"
proof (induction spokes arbitrary: res w)
  case Nil
  show ?case by (simp add: unavailable_results_def)
next
  case (Cons s spokes)
  show ?case
  proof (cases "is_enabled s")
    case False
    with Cons show ?thesis by (simp add: unavailable_results_def)
  next
    case True
    let ?w1 = "w\<lparr>db := (db w)\<lparr>sync_runs := sync_runs (db w) @ [unavailable_row s]\<rparr>\<rparr>"
    have h1: "faults (db ?w1) = []" using Cons.prems by simp
    have "spokes_loop cs None (s # spokes) res w
        = spokes_loop cs None spokes (dict_set res (cfg_name s) empty_stats) ?w1"
      using True Cons.prems by (simp add: record_sync_healthy unavailable_row_def)
    also note Cons.IH [OF h1, of "dict_set res (cfg_name s) empty_stats"]
    finally show ?thesis using True by (simp add: unavailable_results_def)
  qed
qed

text \<open>
  C10. After \<open>save_hub_records\<close>, \<open>get_cached_hub_records\<close> returns the saved map without
  its empty type sets: the keys are the types whose set is not empty, each with the set
  that was saved. When every set of the saved map is empty it returns \<open>None\<close>, as it does
  when nothing was ever saved, and \<open>sync_all_enabled_spokes\<close> then takes the cache for
  unavailable: every enabled spoke gets a history row with status error and the
  no-cache message, and no adapter is created or called.
\<close>

theorem cache_roundtrip_drops_empty_sets:
  assumes "distinct (map fst records)" and "faults d = []"
  shows "\<exists>d1 res. save_hub_records hub records d = (Inr (), d1)
      \<and> get_cached_hub_records hub d1 = (Inr res, d1)
      \<and> (if list_all (\<lambda>kv. snd kv = []) records
          then res = None
             \<and> sync_all_enabled_spokes cs \<lparr>cfg_name = hub, cfg_type = ty, cfg_enabled = en\<rparr> spokes
                  \<lparr>db = d1, notified = ns, environ = env, remote = r\<rparr>
                = (Inr (unavailable_results spokes []),
                   \<lparr>db = d1\<lparr>sync_runs := sync_runs d1 @ map unavailable_row (filter is_enabled spokes)\<rparr>,
                    notified = ns, environ = env, remote = r\<rparr>)
          else (\<exists>cached. res = Some cached \<and> distinct (map fst cached)
                 \<and> fst ` set cached = {t. get_set records t \<noteq> []}
                 \<and> (\<forall>t. set (get_set cached t) = set (get_set records t))))"
proof -
  let ?d1 = "d\<lparr>authoritative_records := delete_rows hub (authoritative_records d) @ rows_of hub records,
               cache_meta := filter (\<lambda>h. h \<noteq> hub) (cache_meta d) @ [hub]\<rparr>"
  let ?res = "rows_to_dict (items_of records)"
  have save: "save_hub_records hub records d = (Inr (), ?d1)"
    by (rule save_hub_records_healthy [OF assms(2)])
  have h1: "faults ?d1 = []" using assms(2) by simp
  have get: "get_cached_hub_records hub ?d1 = (Inr ?res, ?d1)"
    unfolding get_cached_hub_records_healthy [OF h1] by (simp add: select_after_replace)
  note facts = rows_to_dict_items [OF assms(1)]
  have third: "if list_all (\<lambda>kv. snd kv = []) records
          then ?res = None
             \<and> sync_all_enabled_spokes cs \<lparr>cfg_name = hub, cfg_type = ty, cfg_enabled = en\<rparr> spokes
                  \<lparr>db = ?d1, notified = ns, environ = env, remote = r\<rparr>
                = (Inr (unavailable_results spokes []),
                   \<lparr>db = ?d1\<lparr>sync_runs := sync_runs ?d1 @ map unavailable_row (filter is_enabled spokes)\<rparr>,
                    notified = ns, environ = env, remote = r\<rparr>)
          else (\<exists>cached. ?res = Some cached \<and> distinct (map fst cached)
                 \<and> fst ` set cached = {t. get_set records t \<noteq> []}
                 \<and> (\<forall>t. set (get_set cached t) = set (get_set records t)))"
  proof (cases "list_all (\<lambda>kv. snd kv = []) records")
    case True
    then have none: "?res = None" by (simp add: facts(1))
    let ?w = "\<lparr>db = ?d1, notified = ns, environ = env, remote = r\<rparr>"
    have hw: "faults (db ?w) = []" using assms(2) by simp
    have "sync_all_enabled_spokes cs \<lparr>cfg_name = hub, cfg_type = ty, cfg_enabled = en\<rparr> spokes ?w
        = spokes_loop cs None spokes [] ?w"
      using get none by (simp add: sync_all_enabled_spokes_def)
    also note spokes_loop_unavailable [OF hw, of cs spokes "[]"]
    finally show ?thesis using True none by simp
  next
    case False
    then show ?thesis using facts by auto
  qed
  from save get third show ?thesis by blast
qed

theorem cache_roundtrip_drops_empty_sets_witness:
  "distinct (map fst [(''A'', [] :: string list), (''CNAME'', [])]) \<and> faults empty_database = []
   \<and> list_all (\<lambda>kv. snd kv = []) [(''A'', [] :: string list), (''CNAME'', [])]
   \<and> fst (get_cached_hub_records ''hub''
            (snd (save_hub_records ''hub'' [(''A'', []), (''CNAME'', [])] empty_database)))
       = Inr None
   \<and> distinct (map fst [(''A'', [''1.2.3.4 nas.home'']), (''CNAME'', [])])
   \<and> (\<exists>cached.
          fst (get_cached_hub_records ''hub''
                 (snd (save_hub_records ''hub'' [(''A'', [''1.2.3.4 nas.home'']), (''CNAME'', [])]
                         empty_database))) = Inr (Some cached)
        \<and> fst ` set cached
            = {t. get_set [(''A'', [''1.2.3.4 nas.home'']), (''CNAME'', [])] t \<noteq> []}
        \<and> set (get_set cached ''A'') = {''1.2.3.4 nas.home''})"
proof -
  have a: "distinct (map fst [(''A'', [] :: string list), (''CNAME'', [])])" by simp
  have b: "faults empty_database = []" by (simp add: empty_database_def)
  have c: "list_all (\<lambda>kv. snd kv = []) [(''A'', [] :: string list), (''CNAME'', [])]" by simp
  from cache_roundtrip_drops_empty_sets [OF a b, where hub = "''hub''" and spokes = "[]"
      and r = "()" and ns = "[]" and env = example_environ and ty = "[]" and en = None
      and cs = "\<lambda>c. Inl (ValueError [])"] c
  obtain d1 res where "save_hub_records ''hub'' [(''A'', []), (''CNAME'', [])] empty_database = (Inr (), d1)"
    and "get_cached_hub_records ''hub'' d1 = (Inr res, d1)" and "res = None"
    by auto
  then have n: "fst (get_cached_hub_records ''hub''
            (snd (save_hub_records ''hub'' [(''A'', []), (''CNAME'', [])] empty_database)))
       = Inr None" by simp
  let ?recs = "[(''A'', [''1.2.3.4 nas.home'']), (''CNAME'', [])]"
  have a': "distinct (map fst ?recs)" by simp
  have c': "\<not> list_all (\<lambda>kv. snd kv = []) ?recs" by simp
  from cache_roundtrip_drops_empty_sets [OF a' b, where hub = "''hub''" and spokes = "[]"
      and r = "()" and ns = "[]" and env = example_environ and ty = "[]" and en = None
      and cs = "\<lambda>c. Inl (ValueError [])"] c'
  obtain d1' cached where "save_hub_records ''hub'' ?recs empty_database = (Inr (), d1')"
    and "get_cached_hub_records ''hub'' d1' = (Inr (Some cached), d1')"
    and "fst ` set cached = {t. get_set ?recs t \<noteq> []}"
    and "\<forall>t. set (get_set cached t) = set (get_set ?recs t)"
    by auto
  then have m: "\<exists>cached.
          fst (get_cached_hub_records ''hub'' (snd (save_hub_records ''hub'' ?recs empty_database)))
            = Inr (Some cached)
        \<and> fst ` set cached = {t. get_set ?recs t \<noteq> []}
        \<and> set (get_set cached ''A'') = {''1.2.3.4 nas.home''}"
    by (auto simp: get_set_def)
  from a b c n a' m show ?thesis by (intro conjI)
qed

section \<open>One spoke, with a store that does not fail\<close>





text \<open>An exception of the notification leaves the block once the error row is written.\<close>

lemma sync_spoke_notifier_raises:
  assumes "spoke_try cs h s w = (Inl e, srv, w1)"
    and "record_sync (cfg_name s) (cfg_type s) ''spoke'' empty_stats (Some (str_of e)) (db w1)
         = (Inr u, d)"
    and "notify_sync_failed (cfg_name s) (cfg_type s) (str_of e) (w1\<lparr>db := d\<rparr>) = (Inl e', w2)"
  shows "sync_spoke cs h s w = (Inl e', finally_disconnect srv w2)"
  using assms by (simp add: sync_spoke_def)




section \<open>All enabled spokes, with a store that does not fail\<close>






section \<open>Failures of one spoke do not reach the others\<close>







section \<open>A hub that cannot be reached\<close>





text \<open>
  An exception of the notification leaves \<open>refresh_hub_cache\<close>, and the cache is not
  read.
\<close>

lemma refresh_hub_cache_notifier_raises:
  assumes "hub_try cs hub_cfg w = (Inl e, srv, w1)"
    and "notify_hub_unreachable (cfg_name hub_cfg) (cfg_type hub_cfg) (str_of e) w1 = (Inl e', w2)"
  shows "refresh_hub_cache cs hub_cfg w = (Inl e', finally_disconnect srv w2)"
  using assms by (simp add: refresh_hub_cache_def)





section \<open>The spoke state that is persisted\<close>




section \<open>A history write that fails\<close>








end
